theory Spec2Isabelle
  imports Main "HOL-Library.Sublist" "HOL-Library.Word"
begin

section \<open>Strings, buffers and errors\<close>

text \<open>
  The proxy core of better-ccflare (\<^verbatim>\<open>packages/proxy/src/proxy.ts\<close>) is embedded
  function by function. A JavaScript string is a \<^typ>\<open>string\<close>; the only characters the
  code inspects are ASCII, so the encoding of the others does not matter. An
  \<^verbatim>\<open>ArrayBuffer\<close> is a list of bytes, and \<^verbatim>\<open>null\<close>/\<^verbatim>\<open>undefined\<close> is \<open>None\<close>.
\<close>

type_synonym bytes = "8 word list"

abbreviation (input) SQ :: char where "SQ \<equiv> CHR 0x27"
abbreviation (input) BS :: char where "BS \<equiv> CHR 0x5C"
abbreviation (input) NL :: char where "NL \<equiv> CHR 0x0A"
abbreviation (input) TAB :: char where "TAB \<equiv> CHR 0x09"

text \<open>What the code throws: the error classes it names, and any other thrown value.\<close>

datatype exn =
    ValidationError string
  | ServiceUnavailableError string string
  | ProviderError string
  | OtherError string

text \<open>JavaScript truthiness of a \<^verbatim>\<open>string | null\<close>: absent and the empty string are falsy.\<close>

definition truthy :: "string option \<Rightarrow> bool" where
  "truthy v = (case v of None \<Rightarrow> False | Some s \<Rightarrow> s \<noteq> [])"

text \<open>\<^verbatim>\<open>Array.prototype.join\<close>.\<close>

fun join :: "string \<Rightarrow> string list \<Rightarrow> string" where
  "join sep [] = []"
| "join sep [x] = x"
| "join sep (x # y # ys) = x @ sep @ join sep (y # ys)"

text \<open>
  \<^verbatim>\<open>s.replace(/c/g, r)\<close> for a one-character pattern and a replacement \<open>r\<close> without
  \<^verbatim>\<open>$\<close>: every occurrence of \<open>c\<close> becomes \<open>r\<close>, everything else is kept.
\<close>

primrec replace_all_char :: "char \<Rightarrow> string \<Rightarrow> string \<Rightarrow> string" where
  "replace_all_char c r [] = []"
| "replace_all_char c r (x # xs) = (if x = c then r else [x]) @ replace_all_char c r xs"

text \<open>The decimal rendering of an array length in a template literal.\<close>

fun string_of_nat :: "nat \<Rightarrow> string" where
  "string_of_nat n =
     (if n < 10 then [char_of (48 + n)]
      else string_of_nat (n div 10) @ [char_of (48 + n mod 10)])"

declare string_of_nat.simps [simp del]

text \<open>
  A value of type \<^verbatim>\<open>string | null | undefined\<close>. \<^verbatim>\<open>!==\<close> tells the three kinds apart,
  only a non-empty string is truthy, and a template literal prints \<^verbatim>\<open>undefined\<close> and
  \<^verbatim>\<open>null\<close> by their names.
\<close>

datatype js_string = Undefined | Null | Str string

definition truthy_str :: "js_string \<Rightarrow> bool" where
  "truthy_str v = (case v of Undefined \<Rightarrow> False | Null \<Rightarrow> False | Str s \<Rightarrow> s \<noteq> [])"

definition show_js :: "js_string \<Rightarrow> string" where
  "show_js v = (case v of Undefined \<Rightarrow> ''undefined'' | Null \<Rightarrow> ''null'' | Str s \<Rightarrow> s)"

section \<open>Accounts and the remediation command\<close>

text \<open>
  The fields of an account that \<^verbatim>\<open>handleProxy\<close> reads; the others are the record's
  extension.
\<close>

record account =
  name :: string
  refresh_token :: "string option"

text \<open>
  Lines 262-263: the command for one account,
  \<^verbatim>\<open>`bun run cli --reauthenticate '${acc.name.replace(/'/g, "'\\''")}'`\<close>.
\<close>

definition reauthCommand :: "'a account_scheme \<Rightarrow> string" where
  "reauthCommand acc =
     ''bun run cli --reauthenticate '' @ [SQ] @
     replace_all_char SQ [SQ, BS, SQ, SQ] (name acc) @ [SQ]"

section \<open>Word splitting of a POSIX shell\<close>

text \<open>
  The quoting rules of the POSIX shell command language (XCU 2.2 and 2.3), for command
  lines made of plain words, single-quoted text and backslash escapes. Outside quotes a
  blank ends the word, a single quote opens literal text up to the next single quote, and
  a backslash makes the next character literal (a backslash-newline pair is removed).
  A character that starts another construct when unquoted (an operator, an expansion, a
  double quote, a pattern, a comment) is outside this fragment and gives \<open>None\<close>, as does
  an unterminated quote. \<open>cur\<close> is the word being read, \<open>None\<close> between words.
\<close>

definition sh_other_construct :: "char \<Rightarrow> bool" where
  "sh_other_construct c = (c \<in> set ''|&;<>()$`\"*?[#~=%'' \<or> c = NL)"

definition sh_finish :: "string option \<Rightarrow> string list" where
  "sh_finish cur = (case cur of None \<Rightarrow> [] | Some w \<Rightarrow> [w])"

definition sh_word :: "string option \<Rightarrow> string" where
  "sh_word cur = (case cur of None \<Rightarrow> [] | Some w \<Rightarrow> w)"

fun sh_unquoted :: "string option \<Rightarrow> string \<Rightarrow> string list option"
  and sh_single :: "string \<Rightarrow> string \<Rightarrow> string list option" where
  "sh_unquoted cur [] = Some (sh_finish cur)"
| "sh_unquoted cur (c # cs) =
     (if c = CHR '' '' \<or> c = TAB then map_option (\<lambda>ws. sh_finish cur @ ws) (sh_unquoted None cs)
      else if c = SQ then sh_single (sh_word cur) cs
      else if c = BS then
        (case cs of
           [] \<Rightarrow> None
         | d # ds \<Rightarrow> if d = NL then sh_unquoted cur ds
                     else sh_unquoted (Some (sh_word cur @ [d])) ds)
      else if sh_other_construct c then None
      else sh_unquoted (Some (sh_word cur @ [c])) cs)"
| "sh_single w [] = None"
| "sh_single w (c # cs) = (if c = SQ then sh_unquoted (Some w) cs else sh_single (w @ [c]) cs)"

definition sh_tokenize :: "string \<Rightarrow> string list option" where
  "sh_tokenize cmd = sh_unquoted None cmd"

section \<open>Requests, contexts and the collaborators of handleProxy\<close>

record request =
  req_method :: string
  req_headers :: "string \<rightharpoonup> string"

record url =
  pathname :: string

record provider =
  provider_name :: string

record 'db proxyContext =
  provider :: provider
  dbOps :: 'db

text \<open>What \<^verbatim>\<open>interceptAndModifyRequest\<close> resolves to.\<close>

record interceptResult =
  modifiedBody :: "bytes option"
  agentUsed :: js_string
  originalModel :: js_string
  appliedModel :: js_string

text \<open>
  The request metadata: the field \<^verbatim>\<open>handleProxy\<close> writes; the others are the record's
  extension.
\<close>

record requestMeta =
  agentUsed :: js_string

text \<open>
  Body streams live in a store: entry \<open>i\<close> is what is still unread of stream \<open>i\<close>,
  and reading a stream shortens its entry. \<^verbatim>\<open>new Response(buffer).body\<close> is, by the Fetch
  standard, a new stream over a copy of the buffer's bytes.
\<close>

type_synonym stream_store = "bytes list"
type_synonym stream_factory = "stream_store \<Rightarrow> nat option \<times> stream_store"

definition Response_body :: "bytes \<Rightarrow> stream_store \<Rightarrow> nat option \<times> stream_store" where
  "Response_body b streams = (Some (length streams), streams @ [b])"

text \<open>Lines 190-193: the factory; \<^verbatim>\<open>?? undefined\<close> turns an absent body into \<open>None\<close>.\<close>

definition finalCreateBodyStream :: "bytes option \<Rightarrow> stream_factory" where
  "finalCreateBodyStream finalBodyBuffer streams =
     (case finalBodyBuffer of
        None \<Rightarrow> (None, streams)
      | Some b \<Rightarrow>
          (case Response_body b streams of
             (Some stream, streams') \<Rightarrow> (Some stream, streams')
           | (None, streams') \<Rightarrow> (None, streams')))"

text \<open>
  The functions imported from \<^verbatim>\<open>./handlers\<close>, \<^verbatim>\<open>@better-ccflare/core\<close> and the
  constant \<^verbatim>\<open>ERROR_MESSAGES.ALL_ACCOUNTS_FAILED\<close> are parameters. Each works on the
  world \<open>'w\<close> outside \<^verbatim>\<open>handleProxy\<close> (network, database, clock) and either returns
  or throws; \<^verbatim>\<open>isRefreshTokenLikelyExpired\<close> is a judgement that reads the world.
\<close>

record ('a, 'db, 'm, 'r, 'w) handlers =
  trackClientVersion :: "string option \<Rightarrow> 'w \<Rightarrow> (exn + unit) \<times> 'w"
  validateProviderPath :: "provider \<Rightarrow> string \<Rightarrow> 'w \<Rightarrow> (exn + unit) \<times> 'w"
  prepareRequestBody :: "request \<Rightarrow> 'w \<Rightarrow> (exn + bytes option) \<times> 'w"
  interceptAndModifyRequest :: "bytes option \<Rightarrow> 'db \<Rightarrow> 'w \<Rightarrow> (exn + interceptResult) \<times> 'w"
  createRequestMetadata :: "request \<Rightarrow> url \<Rightarrow> 'w \<Rightarrow> (exn + 'm requestMeta_scheme) \<times> 'w"
  selectAccountsForRequest ::
    "'m requestMeta_scheme \<Rightarrow> 'db proxyContext \<Rightarrow> 'w \<Rightarrow> (exn + 'a account_scheme list) \<times> 'w"
  proxyUnauthenticated ::
    "request \<Rightarrow> url \<Rightarrow> 'm requestMeta_scheme \<Rightarrow> bytes option \<Rightarrow> stream_factory \<Rightarrow>
     'db proxyContext \<Rightarrow> 'w \<Rightarrow> (exn + 'r) \<times> 'w"
  proxyWithAccount ::
    "request \<Rightarrow> url \<Rightarrow> 'a account_scheme \<Rightarrow> 'm requestMeta_scheme \<Rightarrow> bytes option \<Rightarrow>
     stream_factory \<Rightarrow> nat \<Rightarrow> 'db proxyContext \<Rightarrow> 'w \<Rightarrow> (exn + 'r option) \<times> 'w"
  isRefreshTokenLikelyExpired :: "'a account_scheme \<Rightarrow> 'w \<Rightarrow> bool"
  ALL_ACCOUNTS_FAILED :: string

record process_env =
  DEBUG :: "string option"
  NODE_ENV :: "string option"

text \<open>
  The log of a run: every call to a collaborator with its arguments, and every line
  written with \<^verbatim>\<open>log.info\<close>, in the order they happen.
\<close>

datatype ('a, 'db, 'm) call =
    TrackClientVersion "string option"
  | ValidateProviderPath provider string
  | PrepareRequestBody request
  | InterceptAndModifyRequest "bytes option" 'db
  | CreateRequestMetadata request url
  | SelectAccountsForRequest "'m requestMeta_scheme" "'db proxyContext"
  | ProxyUnauthenticated request url "'m requestMeta_scheme" "bytes option" stream_factory
      "'db proxyContext"
  | ProxyWithAccount request url "'a account_scheme" "'m requestMeta_scheme" "bytes option"
      stream_factory nat "'db proxyContext"
  | LogInfo string

record ('a, 'db, 'm, 'w) pstate =
  world :: 'w
  calls :: "('a, 'db, 'm) call list"

text \<open>Sequencing with exceptions: a throw skips the rest.\<close>

definition andThen ::
  "('s \<Rightarrow> (exn + 'x) \<times> 's) \<Rightarrow> ('x \<Rightarrow> 's \<Rightarrow> (exn + 'y) \<times> 's) \<Rightarrow> 's \<Rightarrow> (exn + 'y) \<times> 's" where
  "andThen m f s = (case m s of (Inl e, s') \<Rightarrow> (Inl e, s') | (Inr x, s') \<Rightarrow> f x s')"

definition succeed :: "'x \<Rightarrow> 's \<Rightarrow> (exn + 'x) \<times> 's" where
  "succeed x s = (Inr x, s)"

definition throw :: "exn \<Rightarrow> 's \<Rightarrow> (exn + 'x) \<times> 's" where
  "throw e s = (Inl e, s)"

definition invoke ::
  "('a, 'db, 'm) call \<Rightarrow> ('w \<Rightarrow> (exn + 'x) \<times> 'w) \<Rightarrow> ('a, 'db, 'm, 'w) pstate \<Rightarrow>
   (exn + 'x) \<times> ('a, 'db, 'm, 'w) pstate" where
  "invoke c f s =
     (case f (world s) of (r, w') \<Rightarrow> (r, \<lparr>world = w', calls = calls s @ [c]\<rparr>))"

definition logInfo :: "string \<Rightarrow> ('a, 'db, 'm, 'w) pstate \<Rightarrow> (exn + unit) \<times> ('a, 'db, 'm, 'w) pstate" where
  "logInfo msg s = (Inr (), s\<lparr>calls := calls s @ [LogInfo msg]\<rparr>)"

section \<open>handleProxy\<close>

text \<open>
  Lines 175-206, steps 1 to 6: client version, path validation, body buffering,
  interception, metadata, account selection. The result is the final body buffer, the
  metadata and the selected accounts.
\<close>

definition handleProxy_prepare ::
  "('a, 'db, 'm, 'r, 'w) handlers \<Rightarrow> request \<Rightarrow> url \<Rightarrow> 'db proxyContext \<Rightarrow>
   ('a, 'db, 'm, 'w) pstate \<Rightarrow>
   (exn + bytes option \<times> 'm requestMeta_scheme \<times> 'a account_scheme list) \<times> ('a, 'db, 'm, 'w) pstate" where
  "handleProxy_prepare H req url ctx =
     andThen (invoke (TrackClientVersion (req_headers req ''user-agent''))
               (trackClientVersion H (req_headers req ''user-agent''))) (\<lambda>_.
     andThen (invoke (ValidateProviderPath (provider ctx) (pathname url))
               (validateProviderPath H (provider ctx) (pathname url))) (\<lambda>_.
     andThen (invoke (PrepareRequestBody req) (prepareRequestBody H req)) (\<lambda>requestBodyBuffer.
     andThen (invoke (InterceptAndModifyRequest requestBodyBuffer (dbOps ctx))
               (interceptAndModifyRequest H requestBodyBuffer (dbOps ctx))) (\<lambda>ir.
     let finalBodyBuffer =
           (case modifiedBody ir of Some m \<Rightarrow> Some m | None \<Rightarrow> requestBodyBuffer) in
     andThen (if truthy_str (interceptResult.agentUsed ir) \<and> originalModel ir \<noteq> appliedModel ir
              then logInfo (''Agent '' @ show_js (interceptResult.agentUsed ir) @
                     '' detected, model changed from '' @ show_js (originalModel ir) @
                     '' to '' @ show_js (appliedModel ir))
              else succeed ()) (\<lambda>_.
     andThen (invoke (CreateRequestMetadata req url) (createRequestMetadata H req url)) (\<lambda>meta0.
     let requestMeta = meta0\<lparr>agentUsed := interceptResult.agentUsed ir\<rparr> in
     andThen (invoke (SelectAccountsForRequest requestMeta ctx)
               (selectAccountsForRequest H requestMeta ctx)) (\<lambda>accounts.
     succeed (finalBodyBuffer, requestMeta, accounts))))))))"

text \<open>Lines 232-248, step 9: the loop over the accounts, from index \<open>i\<close>.\<close>

function tryAccounts ::
  "('a, 'db, 'm, 'r, 'w) handlers \<Rightarrow> request \<Rightarrow> url \<Rightarrow> 'a account_scheme list \<Rightarrow>
   'm requestMeta_scheme \<Rightarrow> bytes option \<Rightarrow> stream_factory \<Rightarrow> 'db proxyContext \<Rightarrow> nat \<Rightarrow>
   ('a, 'db, 'm, 'w) pstate \<Rightarrow> (exn + 'r option) \<times> ('a, 'db, 'm, 'w) pstate" where
  "tryAccounts H req url accounts requestMeta finalBodyBuffer fac ctx i s =
     (if i < length accounts then
        (case invoke (ProxyWithAccount req url (accounts ! i) requestMeta finalBodyBuffer fac i ctx)
                (proxyWithAccount H req url (accounts ! i) requestMeta finalBodyBuffer fac i ctx) s of
           (Inl e, s') \<Rightarrow> (Inl e, s')
         | (Inr (Some response), s') \<Rightarrow> (Inr (Some response), s')
         | (Inr None, s') \<Rightarrow>
             tryAccounts H req url accounts requestMeta finalBodyBuffer fac ctx (Suc i) s')
      else (Inr None, s))"
  by pat_completeness auto
termination
  by (relation "measure (\<lambda>(H, req, url, accounts, requestMeta, b, fac, ctx, i, s). length accounts - i)")
     auto

declare tryAccounts.simps [simp del]

text \<open>Lines 250-275, step 10: the error thrown when every account failed.\<close>

definition allAccountsFailed ::
  "('a, 'db, 'm, 'r, 'w) handlers \<Rightarrow> 'db proxyContext \<Rightarrow> 'a account_scheme list \<Rightarrow> 'w \<Rightarrow> exn" where
  "allAccountsFailed H ctx accounts w =
     (let oauthAccounts = filter (\<lambda>acc. truthy (refresh_token acc)) accounts;
          needsReauth = filter (\<lambda>acc. isRefreshTokenLikelyExpired H acc w) oauthAccounts
      in if length needsReauth > 0 then
           (let reauthCommands = join (NL # ''  '') (map reauthCommand needsReauth)
            in ServiceUnavailableError
                 (''All accounts failed to proxy the request. OAuth tokens have expired for accounts: '' @
                  join '', '' (map name needsReauth) @ ''.'' @ [NL, NL] @
                  ''Please re-authenticate:'' @ [NL] @ ''  '' @ reauthCommands)
                 (provider_name (provider ctx)))
         else ServiceUnavailableError
                (ALL_ACCOUNTS_FAILED H @ '' ('' @ string_of_nat (length accounts) @ '' attempted)'')
                (provider_name (provider ctx)))"

text \<open>Lines 224-228: the switches for the per-request log line.\<close>

definition debugLogging :: "process_env \<Rightarrow> bool" where
  "debugLogging env =
     ((case DEBUG env of None \<Rightarrow> False | Some d \<Rightarrow> sublist ''proxy'' d) \<or>
      DEBUG env = Some ''true'' \<or> NODE_ENV env = Some ''development'')"

text \<open>Lines 170-276: the whole handler.\<close>

definition handleProxy ::
  "('a, 'db, 'm, 'r, 'w) handlers \<Rightarrow> process_env \<Rightarrow> request \<Rightarrow> url \<Rightarrow> 'db proxyContext \<Rightarrow>
   ('a, 'db, 'm, 'w) pstate \<Rightarrow> (exn + 'r) \<times> ('a, 'db, 'm, 'w) pstate" where
  "handleProxy H env req url ctx =
     andThen (handleProxy_prepare H req url ctx) (\<lambda>(finalBodyBuffer, requestMeta, accounts).
     if length accounts = 0 then
       invoke (ProxyUnauthenticated req url requestMeta finalBodyBuffer
                 (finalCreateBodyStream finalBodyBuffer) ctx)
              (proxyUnauthenticated H req url requestMeta finalBodyBuffer
                 (finalCreateBodyStream finalBodyBuffer) ctx)
     else
       andThen (logInfo (''Selected '' @ string_of_nat (length accounts) @ '' accounts: '' @
                  join '', '' (map name accounts))) (\<lambda>_.
       andThen (if debugLogging env
                then logInfo (''Request: '' @ req_method req @ '' '' @ pathname url)
                else succeed ()) (\<lambda>_.
       andThen (tryAccounts H req url accounts requestMeta finalBodyBuffer
                  (finalCreateBodyStream finalBodyBuffer) ctx 0) (\<lambda>response.
       case response of
         Some r \<Rightarrow> succeed r
       | None \<Rightarrow> (\<lambda>s. throw (allAccountsFailed H ctx accounts (world s)) s)))))"

section \<open>Reading the log of a run\<close>

text \<open>Lines 220-230, step 8: the lines logged once accounts have been selected.\<close>

definition selectedLog :: "'a account_scheme list \<Rightarrow> process_env \<Rightarrow> request \<Rightarrow> url \<Rightarrow> ('a, 'db, 'm) call list" where
  "selectedLog accounts env req url =
     LogInfo (''Selected '' @ string_of_nat (length accounts) @ '' accounts: '' @
                  join '', '' (map name accounts)) #
     (if debugLogging env then [LogInfo (''Request: '' @ req_method req @ '' '' @ pathname url)] else [])"

text \<open>
  The step of \<^verbatim>\<open>handleProxy\<close> a call belongs to, numbered as the comments of the source
  number them; a log line is no step and counts as 0.
\<close>

fun step_no :: "('a, 'db, 'm) call \<Rightarrow> nat" where
  "step_no (TrackClientVersion ua) = 1"
| "step_no (ValidateProviderPath p path) = 2"
| "step_no (PrepareRequestBody req) = 3"
| "step_no (InterceptAndModifyRequest b db) = 4"
| "step_no (CreateRequestMetadata req url) = 5"
| "step_no (SelectAccountsForRequest m ctx) = 6"
| "step_no (ProxyUnauthenticated req url m b fac ctx) = 7"
| "step_no (ProxyWithAccount req url acc m b fac i ctx) = 9"
| "step_no (LogInfo msg) = 0"

definition steps_of :: "('a, 'db, 'm) call list \<Rightarrow> nat list" where
  "steps_of cs = filter (\<lambda>n. n \<noteq> 0) (map step_no cs)"

text \<open>What a call hands over as request body: the buffer and the stream factory.\<close>

fun delivered :: "('a, 'db, 'm) call \<Rightarrow> (bytes option \<times> stream_factory) option" where
  "delivered (ProxyUnauthenticated req url m b fac ctx) = Some (b, fac)"
| "delivered (ProxyWithAccount req url acc m b fac i ctx) = Some (b, fac)"
| "delivered _ = None"

text \<open>
  \<open>precedes a x steps\<close>: reading \<open>steps\<close> from the left, step \<open>a\<close> is met before step
  \<open>x\<close> is (if \<open>x\<close> is met at all).
\<close>

fun precedes :: "nat \<Rightarrow> nat \<Rightarrow> nat list \<Rightarrow> bool" where
  "precedes a x [] = True"
| "precedes a x (y # ys) = (if y = a then True else if y = x then False else precedes a x ys)"

section \<open>The usage worker\<close>

text \<open>
  The module variables \<^verbatim>\<open>usageWorkerInstance\<close> and \<^verbatim>\<open>shutdownTimerId\<close> (lines 30-31) and
  the part of the runtime they refer to. A \<^verbatim>\<open>Worker\<close> object is an entry of \<open>workers\<close>,
  its handle the index; \<open>running\<close> tells whether its thread still runs. \<open>timers\<close> holds
  the pending timeouts of this module, each with its handle and its delay; the callback
  of all of them is the closure of lines 135-145. Handles are objects, hence truthy.
\<close>

datatype worker_source = BlobUrl string | FileUrl string

datatype control_message = Shutdown

datatype outgoing_message = Summary string | Payload string | Unknown string

datatype bus_event = SummaryEvent string | PayloadEvent string

record error_event =
  ev_message :: string
  ev_filename :: string
  ev_lineno :: nat
  ev_colno :: nat
  ev_error_stack :: "string option"
  ev_stack :: "string option"

datatype log_line =
    Info string
  | CreateFailed exn
  | WorkerFault error_event "string option" string

record worker_obj =
  source :: worker_source
  running :: bool
  unrefd :: bool
  onmessage_set :: bool
  onerror_set :: bool
  inbox :: "control_message list"

record wstate =
  usageWorkerInstance :: "nat option"
  shutdownTimerId :: "nat option"
  workers :: "worker_obj list"
  timers :: "(nat \<times> nat) list"
  next_timer :: nat
  wlog :: "log_line list"
  bus :: "bus_event list"

text \<open>
  The constants the module imports (\<^verbatim>\<open>EMBEDDED_WORKER_CODE\<close>,
  \<^verbatim>\<open>TIMING.WORKER_SHUTDOWN_DELAY\<close>), the address of the development worker file, the
  base64 decoder, and whether the runtime's workers have \<^verbatim>\<open>unref\<close>.
\<close>

record worker_config =
  EMBEDDED_WORKER_CODE :: string
  WORKER_SHUTDOWN_DELAY :: nat
  workerPath :: string
  decodeBase64 :: "string \<Rightarrow> string"
  has_unref :: bool

definition initial_wstate :: wstate where
  "initial_wstate =
     \<lparr>usageWorkerInstance = None, shutdownTimerId = None, workers = [], timers = [],
      next_timer = 0, wlog = [], bus = []\<rparr>"

text \<open>
  The runtime operations. Whether \<^verbatim>\<open>new Worker\<close>, \<^verbatim>\<open>postMessage\<close> and \<^verbatim>\<open>terminate\<close>
  throw is decided outside the module: \<open>fault\<close> is the error thrown, if any.
\<close>

definition log_write :: "log_line \<Rightarrow> wstate \<Rightarrow> wstate" where
  "log_write l st = st\<lparr>wlog := wlog st @ [l]\<rparr>"

definition update_worker :: "nat \<Rightarrow> (worker_obj \<Rightarrow> worker_obj) \<Rightarrow> wstate \<Rightarrow> wstate" where
  "update_worker w f st =
     (if w < length (workers st) then st\<lparr>workers := (workers st)[w := f (workers st ! w)]\<rparr> else st)"

definition new_Worker :: "exn option \<Rightarrow> worker_source \<Rightarrow> wstate \<Rightarrow> (exn + nat) \<times> wstate" where
  "new_Worker fault src st =
     (case fault of
        Some e \<Rightarrow> (Inl e, st)
      | None \<Rightarrow>
          (Inr (length (workers st)),
           st\<lparr>workers := workers st @
                [\<lparr>source = src, running = True, unrefd = False, onmessage_set = False,
                  onerror_set = False, inbox = []\<rparr>]\<rparr>))"

definition postMessage :: "exn option \<Rightarrow> nat \<Rightarrow> control_message \<Rightarrow> wstate \<Rightarrow> (exn + unit) \<times> wstate" where
  "postMessage fault w msg st =
     (case fault of
        Some e \<Rightarrow> (Inl e, st)
      | None \<Rightarrow> (Inr (), update_worker w (\<lambda>wk. wk\<lparr>inbox := inbox wk @ [msg]\<rparr>) st))"

definition worker_terminate :: "exn option \<Rightarrow> nat \<Rightarrow> wstate \<Rightarrow> (exn + unit) \<times> wstate" where
  "worker_terminate fault w st =
     (case fault of
        Some e \<Rightarrow> (Inl e, st)
      | None \<Rightarrow> (Inr (), update_worker w (\<lambda>wk. wk\<lparr>running := False\<rparr>) st))"

definition clearTimeout :: "nat \<Rightarrow> wstate \<Rightarrow> wstate" where
  "clearTimeout t st = st\<lparr>timers := filter (\<lambda>p. fst p \<noteq> t) (timers st)\<rparr>"

definition setTimeout :: "nat \<Rightarrow> wstate \<Rightarrow> nat \<times> wstate" where
  "setTimeout delay st =
     (next_timer st,
      st\<lparr>timers := timers st @ [(next_timer st, delay)], next_timer := Suc (next_timer st)\<rparr>)"

text \<open>Lines 72-85: the message observer.\<close>

definition onmessage :: "outgoing_message \<Rightarrow> wstate \<Rightarrow> wstate" where
  "onmessage data st =
     (case data of
        Summary s \<Rightarrow> st\<lparr>bus := bus st @ [SummaryEvent s]\<rparr>
      | Payload p \<Rightarrow> st\<lparr>bus := bus st @ [PayloadEvent p]\<rparr>
      | Unknown t \<Rightarrow> st)"

text \<open>Lines 88-104: the error observer; \<open>now\<close> is the time stamp of the log record.\<close>

definition onerror :: "error_event \<Rightarrow> string \<Rightarrow> wstate \<Rightarrow> wstate" where
  "onerror error now st =
     (log_write
        (WorkerFault error
           (if truthy (ev_error_stack error) then ev_error_stack error else ev_stack error) now) st)
     \<lparr>usageWorkerInstance := None\<rparr>"

text \<open>Lines 37-111.\<close>

definition getUsageWorker :: "worker_config \<Rightarrow> exn option \<Rightarrow> wstate \<Rightarrow> (exn + nat) \<times> wstate" where
  "getUsageWorker cfg fault st =
     (case usageWorkerInstance st of
        Some w \<Rightarrow> (Inr w, st)
      | None \<Rightarrow>
          (case (if EMBEDDED_WORKER_CODE cfg \<noteq> [] then
                   (case new_Worker fault (BlobUrl (decodeBase64 cfg (EMBEDDED_WORKER_CODE cfg)))
                           (log_write (Info ''Post-processor worker starting from embedded code'') st) of
                      (Inl e, st1) \<Rightarrow> (Inl e, st1)
                    | (Inr w, st1) \<Rightarrow>
                        (Inr w, log_write (Info ''Post-processor worker started'')
                                  (st1\<lparr>usageWorkerInstance := Some w\<rparr>)))
                 else
                   (case new_Worker fault (FileUrl (workerPath cfg))
                           (log_write (Info (''Post-processor worker starting from: '' @ workerPath cfg)) st) of
                      (Inl e, st1) \<Rightarrow> (Inl e, st1)
                    | (Inr w, st1) \<Rightarrow>
                        (Inr w, log_write (Info ''Post-processor worker started'')
                                  (st1\<lparr>usageWorkerInstance := Some w\<rparr>)))) of
             (Inl e, st2) \<Rightarrow> (Inl e, log_write (CreateFailed e) st2)
           | (Inr w, st2) \<Rightarrow>
               (Inr w,
                update_worker w (\<lambda>wk. wk\<lparr>onerror_set := True\<rparr>)
                  (update_worker w (\<lambda>wk. wk\<lparr>onmessage_set := True\<rparr>)
                    (if has_unref cfg then update_worker w (\<lambda>wk. wk\<lparr>unrefd := True\<rparr>) st2 else st2)))))"

text \<open>Lines 116-147.\<close>

definition terminateUsageWorker :: "worker_config \<Rightarrow> exn option \<Rightarrow> wstate \<Rightarrow> (exn + unit) \<times> wstate" where
  "terminateUsageWorker cfg fault st =
     (case usageWorkerInstance st of
        None \<Rightarrow> (Inr (), st)
      | Some w \<Rightarrow>
          (let st1 = (case shutdownTimerId st of
                        Some t \<Rightarrow> (clearTimeout t st)\<lparr>shutdownTimerId := None\<rparr>
                      | None \<Rightarrow> st)
           in case postMessage fault w Shutdown st1 of
                (Inl e, st2) \<Rightarrow> (Inr (), st2\<lparr>usageWorkerInstance := None\<rparr>)
              | (Inr u, st2) \<Rightarrow>
                  (case setTimeout (WORKER_SHUTDOWN_DELAY cfg) st2 of
                     (t, st3) \<Rightarrow> (Inr (), st3\<lparr>shutdownTimerId := Some t\<rparr>))))"

text \<open>Lines 135-145: the callback of the timer.\<close>

definition shutdownTimerCallback :: "exn option \<Rightarrow> wstate \<Rightarrow> (exn + unit) \<times> wstate" where
  "shutdownTimerCallback fault st =
     (let st1 = (case usageWorkerInstance st of
                   None \<Rightarrow> st
                 | Some w \<Rightarrow>
                     (case worker_terminate fault w st of
                        (Inl e, st') \<Rightarrow> st'\<lparr>usageWorkerInstance := None\<rparr>
                      | (Inr u, st') \<Rightarrow> st'\<lparr>usageWorkerInstance := None\<rparr>))
      in (Inr (), st1\<lparr>shutdownTimerId := None\<rparr>))"

text \<open>
  What can happen to the module, one event at a time: a call of one of its two functions,
  a pending timer firing, and what a worker does. The runtime is taken to behave as the
  comments of the source expect of it (\<^verbatim>\<open>Reset worker instance on error to allow recreation\<close>,
  \<^verbatim>\<open>Worker already terminated, just clean up\<close>): a worker reports an error or a message
  only while it runs and after the observers were set, a worker that reports an error has
  stopped, a worker may also stop by itself, and \<^verbatim>\<open>postMessage\<close> and \<^verbatim>\<open>terminate\<close>
  throw only on a worker that has stopped already.
\<close>

definition is_running :: "wstate \<Rightarrow> nat \<Rightarrow> bool" where
  "is_running st w = (w < length (workers st) \<and> running (workers st ! w))"

definition may_fault :: "exn option \<Rightarrow> wstate \<Rightarrow> bool" where
  "may_fault fault st =
     (case fault of
        None \<Rightarrow> True
      | Some e \<Rightarrow> (case usageWorkerInstance st of None \<Rightarrow> True | Some w \<Rightarrow> \<not> is_running st w))"

definition stop_worker :: "nat \<Rightarrow> wstate \<Rightarrow> wstate" where
  "stop_worker w st = update_worker w (\<lambda>wk. wk\<lparr>running := False\<rparr>) st"

inductive reachable :: "worker_config \<Rightarrow> wstate \<Rightarrow> bool" for cfg :: worker_config where
  start: "reachable cfg initial_wstate"
| acquire: "reachable cfg st \<Longrightarrow> reachable cfg (snd (getUsageWorker cfg fault st))"
| terminate: "reachable cfg st \<Longrightarrow> may_fault fault st \<Longrightarrow>
     reachable cfg (snd (terminateUsageWorker cfg fault st))"
| timer_fires: "reachable cfg st \<Longrightarrow> (t, d) \<in> set (timers st) \<Longrightarrow> may_fault fault st \<Longrightarrow>
     reachable cfg (snd (shutdownTimerCallback fault (clearTimeout t st)))"
| worker_error: "reachable cfg st \<Longrightarrow> is_running st w \<Longrightarrow> onerror_set (workers st ! w) \<Longrightarrow>
     reachable cfg (onerror error now (stop_worker w st))"
| worker_message: "reachable cfg st \<Longrightarrow> is_running st w \<Longrightarrow> onmessage_set (workers st ! w) \<Longrightarrow>
     reachable cfg (onmessage data st)"
| worker_stops: "reachable cfg st \<Longrightarrow> reachable cfg (stop_worker w st)"

code_pred reachable .

text \<open>
  What holds of every state the module can reach: a running worker is the one the module
  holds, the handle held is a worker that was constructed, and a pending timer is the one
  \<^verbatim>\<open>shutdownTimerId\<close> names; so there is at most one of each.
\<close>

definition wf_wstate :: "wstate \<Rightarrow> bool" where
  "wf_wstate st =
     ((\<forall>w. is_running st w \<longrightarrow> usageWorkerInstance st = Some w) \<and>
      (\<forall>w. usageWorkerInstance st = Some w \<longrightarrow> w < length (workers st)) \<and>
      (\<forall>p\<in>set (timers st). shutdownTimerId st = Some (fst p) \<and> fst p < next_timer st) \<and>
      length (timers st) \<le> 1)"

text \<open>
  The runtime delivering what a worker reports: it runs the observer registered on that
  worker, if one is registered. \<open>ends\<close> tells whether the fault has ended the worker.
\<close>

definition report_error :: "nat \<Rightarrow> error_event \<Rightarrow> string \<Rightarrow> bool \<Rightarrow> wstate \<Rightarrow> wstate" where
  "report_error w error now ends st =
     (let st1 = (if ends then stop_worker w st else st)
      in if w < length (workers st) \<and> onerror_set (workers st ! w) then onerror error now st1
         else st1)"

definition report_message :: "nat \<Rightarrow> outgoing_message \<Rightarrow> wstate \<Rightarrow> wstate" where
  "report_message w data st =
     (if w < length (workers st) \<and> onmessage_set (workers st ! w) then onmessage data st else st)"

text \<open>
  The same events as data, so that a history is a list and what is assumed of the runtime
  is a condition on each event, checked in the state in which the event happens.
\<close>

datatype worker_event =
    Acquire "exn option"
  | Terminate "exn option"
  | TimerFires nat "exn option"
  | WorkerError nat error_event string bool
  | WorkerMessage nat outgoing_message
  | WorkerStops nat

fun apply_event :: "worker_config \<Rightarrow> worker_event \<Rightarrow> wstate \<Rightarrow> wstate" where
  "apply_event cfg (Acquire fault) st = snd (getUsageWorker cfg fault st)"
| "apply_event cfg (Terminate fault) st = snd (terminateUsageWorker cfg fault st)"
| "apply_event cfg (TimerFires t fault) st = snd (shutdownTimerCallback fault (clearTimeout t st))"
| "apply_event cfg (WorkerError w error now ends) st = report_error w error now ends st"
| "apply_event cfg (WorkerMessage w data) st = report_message w data st"
| "apply_event cfg (WorkerStops w) st = stop_worker w st"

text \<open>
  What is assumed of the runtime, event by event: \<^verbatim>\<open>postMessage\<close> throws only on a worker
  that has stopped; a timer fires only while it is pending, and \<^verbatim>\<open>terminate\<close> throws only
  on a worker that has stopped; an error is reported by a running worker and has ended
  it; a message is reported by a running worker. Acquisitions may fail or succeed, and a
  worker may stop at any time.
\<close>

fun runtime_ok :: "worker_event \<Rightarrow> wstate \<Rightarrow> bool" where
  "runtime_ok (Acquire fault) st = True"
| "runtime_ok (Terminate fault) st = may_fault fault st"
| "runtime_ok (TimerFires t fault) st = (t \<in> fst ` set (timers st) \<and> may_fault fault st)"
| "runtime_ok (WorkerError w error now ends) st = (is_running st w \<and> ends)"
| "runtime_ok (WorkerMessage w data) st = is_running st w"
| "runtime_ok (WorkerStops w) st = True"

text \<open>The state after a history, and whether the runtime kept to the assumptions along it.\<close>

fun run_events :: "worker_config \<Rightarrow> worker_event list \<Rightarrow> wstate \<Rightarrow> wstate" where
  "run_events cfg [] st = st"
| "run_events cfg (e # es) st = run_events cfg es (apply_event cfg e st)"

fun runtime_respected :: "worker_config \<Rightarrow> worker_event list \<Rightarrow> wstate \<Rightarrow> bool" where
  "runtime_respected cfg [] st = True"
| "runtime_respected cfg (e # es) st = (runtime_ok e st \<and> runtime_respected cfg es (apply_event cfg e st))"

text \<open>Both observers are registered on every worker.\<close>

definition observed :: "wstate \<Rightarrow> bool" where
  "observed st = list_all (\<lambda>wk. onerror_set wk \<and> onmessage_set wk) (workers st)"

section \<open>An example deployment\<close>

text \<open>
  Collaborators for worked examples. The world counts the requests sent upstream. The
  database handle holds the accounts the selection returns and the body the interception
  substitutes. Only the account named \<open>good\<close> can serve a request, and a refresh token is
  judged expired when it reads \<open>expired\<close>.
\<close>

definition demoHandlers ::
  "(unit, account list \<times> bytes option, unit, string, nat) handlers" where
  "demoHandlers =
     \<lparr>trackClientVersion = (\<lambda>ua w. (Inr (), w)),
      validateProviderPath = (\<lambda>p path w.
        if path = ''/v1/messages'' then (Inr (), w)
        else (Inl (ValidationError ''unsupported path''), w)),
      prepareRequestBody = (\<lambda>req w. (Inr (Some [1, 2, 3]), w)),
      interceptAndModifyRequest = (\<lambda>buf db w.
        (Inr \<lparr>modifiedBody = snd db, agentUsed = Undefined, originalModel = Undefined,
              appliedModel = Undefined\<rparr>, w)),
      createRequestMetadata = (\<lambda>req url w. (Inr \<lparr>agentUsed = Undefined\<rparr>, w)),
      selectAccountsForRequest = (\<lambda>m ctx w. (Inr (fst (dbOps ctx)), w)),
      proxyUnauthenticated = (\<lambda>req url m b fac ctx w. (Inr ''200 anonymous'', Suc w)),
      proxyWithAccount = (\<lambda>req url acc m b fac i ctx w.
        (if name acc = ''good'' then Inr (Some ''200 via good'') else Inr None, Suc w)),
      isRefreshTokenLikelyExpired = (\<lambda>acc w. refresh_token acc = Some ''expired''),
      ALL_ACCOUNTS_FAILED = ''All accounts failed to proxy the request''\<rparr>"

definition demoRequest :: request where
  "demoRequest = \<lparr>req_method = ''POST'', req_headers = [''user-agent'' \<mapsto> ''claude-cli/1.0'']\<rparr>"

definition demoUrl :: url where
  "demoUrl = \<lparr>pathname = ''/v1/messages''\<rparr>"

definition demoContext :: "account list \<Rightarrow> bytes option \<Rightarrow> (account list \<times> bytes option) proxyContext" where
  "demoContext accounts replacement =
     \<lparr>provider = \<lparr>provider_name = ''anthropic''\<rparr>, dbOps = (accounts, replacement)\<rparr>"

definition demoEnv :: process_env where
  "demoEnv = \<lparr>DEBUG = None, NODE_ENV = None\<rparr>"

definition demoStart :: "(unit, account list \<times> bytes option, unit, nat) pstate" where
  "demoStart = \<lparr>world = 0, calls = []\<rparr>"

definition acctKey :: account where
  "acctKey = \<lparr>name = ''key'', refresh_token = None\<rparr>"

definition acctGood :: account where
  "acctGood = \<lparr>name = ''good'', refresh_token = Some ''rt-1''\<rparr>"

definition acctOld :: account where
  "acctOld = \<lparr>name = ''old'', refresh_token = Some ''expired''\<rparr>"

definition acctQuote :: account where
  "acctQuote = \<lparr>name = ''o'' @ [SQ] @ ''neil'', refresh_token = Some ''expired''\<rparr>"

definition acctFresh :: account where
  "acctFresh = \<lparr>name = ''fresh'', refresh_token = Some ''rt-2''\<rparr>"

text \<open>
  A development build whose workers have \<^verbatim>\<open>unref\<close>; the state after the first
  acquisition; and a fault reported by the worker.
\<close>

definition demoWorkerConfig :: worker_config where
  "demoWorkerConfig =
     \<lparr>EMBEDDED_WORKER_CODE = [], WORKER_SHUTDOWN_DELAY = 100,
      workerPath = ''file:///app/post-processor.worker.ts'', decodeBase64 = (\<lambda>s. s),
      has_unref = True\<rparr>"

definition demoWorker :: worker_obj where
  "demoWorker =
     \<lparr>source = FileUrl ''file:///app/post-processor.worker.ts'', running = True, unrefd = True,
      onmessage_set = True, onerror_set = True, inbox = []\<rparr>"

definition demoRunning :: wstate where
  "demoRunning =
     \<lparr>usageWorkerInstance = Some 0, shutdownTimerId = None, workers = [demoWorker], timers = [],
      next_timer = 0,
      wlog = [Info ''Post-processor worker starting from: file:///app/post-processor.worker.ts'',
              Info ''Post-processor worker started''],
      bus = []\<rparr>"

definition demoErrorEvent :: error_event where
  "demoErrorEvent =
     \<lparr>ev_message = ''boom'', ev_filename = ''post-processor.worker.ts'', ev_lineno = 7,
      ev_colno = 3, ev_error_stack = None, ev_stack = None\<rparr>"

section \<open>Shell escaping\<close>

lemma sh_single_escaped:
  "sh_single w (replace_all_char SQ [SQ, BS, SQ, SQ] nm @ SQ # rest) = sh_unquoted (Some (w @ nm)) rest"
  by (induction nm arbitrary: w) (simp_all add: sh_word_def)

text \<open>
  Claim C3. For every account, whatever its name contains, the remediation command is the
  fixed words followed by the name wrapped in single quotes, each single quote of the name
  replaced by the four characters quote, backslash, quote, quote; and a POSIX shell splits
  the command into the four fixed words and the original name as one argument.
\<close>

theorem reauthCommand_shell_safe:
  "reauthCommand acc =
     ''bun run cli --reauthenticate '' @ [SQ] @
     concat (map (\<lambda>c. if c = SQ then [SQ, BS, SQ, SQ] else [c]) (name acc)) @ [SQ] \<and>
   sh_tokenize (reauthCommand acc) =
     Some [''bun'', ''run'', ''cli'', ''--reauthenticate'', name acc]"
proof
  have "replace_all_char c r xs = concat (map (\<lambda>x. if x = c then r else [x]) xs)" for c r xs
    by (induction xs) simp_all
  then show "reauthCommand acc =
     ''bun run cli --reauthenticate '' @ [SQ] @
     concat (map (\<lambda>c. if c = SQ then [SQ, BS, SQ, SQ] else [c]) (name acc)) @ [SQ]"
    by (simp add: reauthCommand_def)
  show "sh_tokenize (reauthCommand acc) =
     Some [''bun'', ''run'', ''cli'', ''--reauthenticate'', name acc]"
    by (simp add: sh_tokenize_def reauthCommand_def sh_word_def sh_finish_def
          sh_other_construct_def sh_single_escaped)
qed

section \<open>The loop over the accounts\<close>

lemma tryAccounts_done:
  "\<not> i < length accounts \<Longrightarrow> tryAccounts H req url accounts m b fac ctx i s = (Inr None, s)"
  by (subst tryAccounts.simps) simp

lemma tryAccounts_absent_step:
  assumes "i < length accounts"
    and "proxyWithAccount H req url (accounts ! i) m b fac i ctx (world s) = (Inr None, w')"
  shows "tryAccounts H req url accounts m b fac ctx i s =
         tryAccounts H req url accounts m b fac ctx (Suc i)
           \<lparr>world = w', calls = calls s @ [ProxyWithAccount req url (accounts ! i) m b fac i ctx]\<rparr>"
  using assms by (subst tryAccounts.simps) (simp add: invoke_def)

lemma tryAccounts_response_step:
  assumes "i < length accounts"
    and "proxyWithAccount H req url (accounts ! i) m b fac i ctx (world s) = (Inr (Some r), w')"
  shows "tryAccounts H req url accounts m b fac ctx i s =
         (Inr (Some r), \<lparr>world = w', calls = calls s @ [ProxyWithAccount req url (accounts ! i) m b fac i ctx]\<rparr>)"
  using assms by (subst tryAccounts.simps) (simp add: invoke_def)

lemma tryAccounts_throw_step:
  assumes "i < length accounts"
    and "proxyWithAccount H req url (accounts ! i) m b fac i ctx (world s) = (Inl e, w')"
  shows "tryAccounts H req url accounts m b fac ctx i s =
         (Inl e, \<lparr>world = w', calls = calls s @ [ProxyWithAccount req url (accounts ! i) m b fac i ctx]\<rparr>)"
  using assms by (subst tryAccounts.simps) (simp add: invoke_def)

lemma upt_front: "i < k \<Longrightarrow> [i..<k] = i # [Suc i..<k]"
  by (simp add: upt_conv_Cons)

lemma tryAccounts_first_response:
  assumes "i < k" and "k \<le> length accounts" and "world s = ws i"
    and "\<forall>j. i \<le> j \<and> j < k - 1 \<longrightarrow>
           proxyWithAccount H req url (accounts ! j) m b fac j ctx (ws j) = (Inr None, ws (Suc j))"
    and "proxyWithAccount H req url (accounts ! (k - 1)) m b fac (k - 1) ctx (ws (k - 1)) =
           (Inr (Some r), ws k)"
  shows "tryAccounts H req url accounts m b fac ctx i s =
         (Inr (Some r),
          \<lparr>world = ws k,
           calls = calls s @ map (\<lambda>j. ProxyWithAccount req url (accounts ! j) m b fac j ctx) [i..<k]\<rparr>)"
  using assms
proof (induction "k - i" arbitrary: i s)
  case 0
  then show ?case by simp
next
  case (Suc d)
  show ?case
  proof (cases "Suc i = k")
    case True
    then have ki: "k - 1 = i" by simp
    from Suc.prems(5) have "proxyWithAccount H req url (accounts ! i) m b fac i ctx (world s) = (Inr (Some r), ws k)"
      using ki Suc.prems(3) by simp
    moreover have "i < length accounts" using Suc.prems(1,2) by simp
    ultimately show ?thesis
      using True by (simp add: tryAccounts_response_step upt_front)
  next
    case False
    with Suc.prems(1) have lt: "Suc i < k" by simp
    then have "i < k - 1" by simp
    with Suc.prems(4) have
      "proxyWithAccount H req url (accounts ! i) m b fac i ctx (ws i) = (Inr None, ws (Suc i))"
      by simp
    then have st: "proxyWithAccount H req url (accounts ! i) m b fac i ctx (world s) = (Inr None, ws (Suc i))"
      using Suc.prems(3) by simp
    have il: "i < length accounts" using Suc.prems(1,2) by simp
    let ?s' = "\<lparr>world = ws (Suc i), calls = calls s @ [ProxyWithAccount req url (accounts ! i) m b fac i ctx]\<rparr>"
    have d: "d = k - Suc i" using Suc.hyps(2) by simp
    have ih: "tryAccounts H req url accounts m b fac ctx (Suc i) ?s' =
          (Inr (Some r), \<lparr>world = ws k,
             calls = calls ?s' @ map (\<lambda>j. ProxyWithAccount req url (accounts ! j) m b fac j ctx) [Suc i..<k]\<rparr>)"
      using Suc.hyps(1)[OF d lt Suc.prems(2)] Suc.prems(4,5) by simp
    show ?thesis
      using tryAccounts_absent_step[OF il st] ih Suc.prems(1) by (simp add: upt_front)
  qed
qed

lemma tryAccounts_all_absent:
  assumes "i \<le> length accounts" and "world s = ws i"
    and "\<forall>j. i \<le> j \<and> j < length accounts \<longrightarrow>
           proxyWithAccount H req url (accounts ! j) m b fac j ctx (ws j) = (Inr None, ws (Suc j))"
  shows "tryAccounts H req url accounts m b fac ctx i s =
         (Inr None,
          \<lparr>world = ws (length accounts),
           calls = calls s @ map (\<lambda>j. ProxyWithAccount req url (accounts ! j) m b fac j ctx) [i..<length accounts]\<rparr>)"
  using assms
proof (induction "length accounts - i" arbitrary: i s)
  case 0
  then have "i = length accounts" by simp
  then show ?case using "0.prems"(2) by (simp add: tryAccounts_done)
next
  case (Suc d)
  then have il: "i < length accounts" by simp
  with Suc.prems(3) have
    "proxyWithAccount H req url (accounts ! i) m b fac i ctx (ws i) = (Inr None, ws (Suc i))"
    by simp
  then have st: "proxyWithAccount H req url (accounts ! i) m b fac i ctx (world s) = (Inr None, ws (Suc i))"
    using Suc.prems(2) by simp
  let ?s' = "\<lparr>world = ws (Suc i), calls = calls s @ [ProxyWithAccount req url (accounts ! i) m b fac i ctx]\<rparr>"
  have d: "d = length accounts - Suc i" using Suc.hyps(2) by simp
  have le: "Suc i \<le> length accounts" using il by simp
  have ih: "tryAccounts H req url accounts m b fac ctx (Suc i) ?s' =
        (Inr None, \<lparr>world = ws (length accounts),
           calls = calls ?s' @ map (\<lambda>j. ProxyWithAccount req url (accounts ! j) m b fac j ctx) [Suc i..<length accounts]\<rparr>)"
    using Suc.hyps(1)[OF d le] Suc.prems(3) by simp
  show ?case
    using tryAccounts_absent_step[OF il st] ih il by (simp add: upt_front)
qed

lemma tryAccounts_calls:
  assumes "tryAccounts H req url accounts m b fac ctx i s = (out, s')"
  shows "\<exists>k. i \<le> k \<and> (i \<le> length accounts \<longrightarrow> k \<le> length accounts) \<and> calls s' = calls s @ map (\<lambda>j. ProxyWithAccount req url (accounts ! j) m b fac j ctx) [i..<k]"
  using assms
proof (induction H req url accounts m b fac ctx i s rule: tryAccounts.induct)
  case (1 H req url accounts m b fac ctx i s)
  show ?case
  proof (cases "i < length accounts")
    case False
    with "1.prems" have "s' = s" by (simp add: tryAccounts_done)
    then show ?thesis by (intro exI[of _ i]) (use False in simp)
  next
    case True
    obtain res w' where pw: "proxyWithAccount H req url (accounts ! i) m b fac i ctx (world s) = (res, w')"
      by (cases "proxyWithAccount H req url (accounts ! i) m b fac i ctx (world s)")
    let ?s1 = "\<lparr>world = w', calls = calls s @ [ProxyWithAccount req url (accounts ! i) m b fac i ctx]\<rparr>"
    have inv: "invoke (ProxyWithAccount req url (accounts ! i) m b fac i ctx)
                (proxyWithAccount H req url (accounts ! i) m b fac i ctx) s = (res, ?s1)"
      using pw by (simp add: invoke_def)
    show ?thesis
    proof (cases res)
      case (Inl e)
      with "1.prems" True pw have "s' = ?s1" by (simp add: tryAccounts_throw_step)
      then show ?thesis using True by (intro exI[of _ "Suc i"]) simp
    next
      case (Inr ro)
      show ?thesis
      proof (cases ro)
        case (Some r)
        with Inr "1.prems" True pw have "s' = ?s1" by (simp add: tryAccounts_response_step)
        then show ?thesis using True by (intro exI[of _ "Suc i"]) simp
      next
        case None
        with Inr "1.prems" True pw have
          rec: "tryAccounts H req url accounts m b fac ctx (Suc i) ?s1 = (out, s')"
          by (simp add: tryAccounts_absent_step)
        from "1.IH"[OF True inv[symmetric] Inr None rec] obtain k where
          k: "Suc i \<le> k" "Suc i \<le> length accounts \<longrightarrow> k \<le> length accounts"
             "calls s' = calls ?s1 @ map (\<lambda>j. ProxyWithAccount req url (accounts ! j) m b fac j ctx) [Suc i..<k]"
          by auto
        have "i < k" using k(1) by simp
        then show ?thesis using k True by (intro exI[of _ k]) (simp add: upt_front)
      qed
    qed
  qed
qed

section \<open>The steps before the loop\<close>

lemma steps_of_append: "steps_of (xs @ ys) = steps_of xs @ steps_of ys"
  by (simp add: steps_of_def)

lemma prepare_calls:
  assumes "handleProxy_prepare H req url ctx s = (out, s1)"
  shows "\<exists>new. calls s1 = calls s @ new \<and> prefix (steps_of new) [1, 2, 3, 4, 5, 6] \<and>
               ((\<exists>x. out = Inr x) \<longrightarrow> steps_of new = [1, 2, 3, 4, 5, 6])"
  using assms
  unfolding handleProxy_prepare_def andThen_def invoke_def logInfo_def succeed_def Let_def
  by (auto simp: steps_of_def split: prod.splits sum.splits if_splits)

lemma prepare_success:
  assumes "trackClientVersion H (req_headers req ''user-agent'') (world s) = (Inr u, w1)"
    and "validateProviderPath H (provider ctx) (pathname url) w1 = (Inr v, w2)"
    and "prepareRequestBody H req w2 = (Inr buf, w3)"
    and "interceptAndModifyRequest H buf (dbOps ctx) w3 = (Inr ir, w4)"
    and "handleProxy_prepare H req url ctx s = (Inr (body, meta, accounts), s1)"
  shows "body = (case modifiedBody ir of Some m \<Rightarrow> Some m | None \<Rightarrow> buf)"
  using assms
  unfolding handleProxy_prepare_def andThen_def invoke_def logInfo_def succeed_def Let_def
  by (auto split: prod.splits sum.splits if_splits)

lemma handleProxy_prepare_throws:
  "handleProxy_prepare H req url ctx s = (Inl e, s1) \<Longrightarrow> handleProxy H env req url ctx s = (Inl e, s1)"
  by (simp add: handleProxy_def andThen_def)

lemma handleProxy_no_accounts:
  assumes "handleProxy_prepare H req url ctx s = (Inr (body, meta, []), s1)"
  shows "handleProxy H env req url ctx s =
         (case proxyUnauthenticated H req url meta body (finalCreateBodyStream body) ctx (world s1) of
            (r, w') \<Rightarrow> (r, \<lparr>world = w', calls = calls s1 @
               [ProxyUnauthenticated req url meta body (finalCreateBodyStream body) ctx]\<rparr>))"
  using assms by (simp add: handleProxy_def andThen_def invoke_def)

lemma handleProxy_some_accounts:
  assumes "handleProxy_prepare H req url ctx s = (Inr (body, meta, accounts), s1)"
    and "accounts \<noteq> []"
  shows "handleProxy H env req url ctx s =
         (case tryAccounts H req url accounts meta body (finalCreateBodyStream body) ctx 0
                 (s1\<lparr>calls := calls s1 @ selectedLog accounts env req url\<rparr>) of
            (Inl e, s') \<Rightarrow> (Inl e, s')
          | (Inr (Some r), s') \<Rightarrow> (Inr r, s')
          | (Inr None, s') \<Rightarrow> (Inl (allAccountsFailed H ctx accounts (world s')), s'))"
  using assms
  by (simp add: handleProxy_def andThen_def logInfo_def succeed_def throw_def selectedLog_def
           split: prod.splits sum.splits option.splits)

lemma no_step_in: "n \<noteq> 0 \<Longrightarrow> n \<notin> set (steps_of new) \<Longrightarrow> filter (\<lambda>c. step_no c = n) new = []"
  by (auto simp: steps_of_def filter_empty_conv)

lemma steps_selectedLog: "steps_of (selectedLog accounts env req url) = []"
  by (simp add: steps_of_def selectedLog_def)

lemma filter_selectedLog: "n \<noteq> 0 \<Longrightarrow> filter (\<lambda>c. step_no c = n) (selectedLog accounts env req url) = []"
  by (simp add: selectedLog_def)

lemma filter_attempts:
  "filter (\<lambda>c. step_no c = 9) (map (\<lambda>j. ProxyWithAccount req url (accounts ! j) m b fac j ctx) js) =
   map (\<lambda>j. ProxyWithAccount req url (accounts ! j) m b fac j ctx) js"
  by (induction js) simp_all

lemma steps_attempts:
  "steps_of (map (\<lambda>j. ProxyWithAccount req url (accounts ! j) m b fac j ctx) js) = replicate (length js) 9"
  by (induction js) (simp_all add: steps_of_def)

text \<open>
  Claim C1. Steps 1 to 6 have selected the accounts, and \<open>1 \<le> k \<le> length accounts\<close>.
  \<open>ws i\<close> is the world before attempt \<open>i\<close>. If the attempts on the first \<open>k - 1\<close>
  accounts return absent and the attempt on the \<open>k\<close>-th returns the response \<open>r\<close>,
  then \<^verbatim>\<open>handleProxy\<close> returns \<open>r\<close>, and its calls to \<^verbatim>\<open>proxyWithAccount\<close> are exactly
  \<open>k\<close>: for the accounts \<open>0, \<dots>, k - 1\<close> in list order, each with its index as
  \<^verbatim>\<open>attemptIndex\<close>.
\<close>

theorem handleProxy_first_response:
  assumes prep: "handleProxy_prepare H req url ctx s = (Inr (body, meta, accounts), s1)"
    and k: "0 < k" "k \<le> length accounts"
    and w0: "ws 0 = world s1"
    and absent: "\<forall>i<k - 1. proxyWithAccount H req url (accounts ! i) meta body
                   (finalCreateBodyStream body) i ctx (ws i) = (Inr None, ws (Suc i))"
    and hit: "proxyWithAccount H req url (accounts ! (k - 1)) meta body
                   (finalCreateBodyStream body) (k - 1) ctx (ws (k - 1)) = (Inr (Some r), ws k)"
  shows "\<exists>s'. handleProxy H env req url ctx s = (Inr r, s') \<and> world s' = ws k \<and>
           filter (\<lambda>c. step_no c = 9) (drop (length (calls s)) (calls s')) =
           map (\<lambda>i. ProxyWithAccount req url (accounts ! i) meta body
                      (finalCreateBodyStream body) i ctx) [0..<k]"
proof -
  from prepare_calls[OF prep] obtain new where
    new: "calls s1 = calls s @ new" "steps_of new = [1, 2, 3, 4, 5, 6]"
    by auto
  have none: "filter (\<lambda>c. step_no c = 9) new = []"
    by (rule no_step_in) (simp_all add: new(2))
  let ?s2 = "s1\<lparr>calls := calls s1 @ selectedLog accounts env req url\<rparr>"
  let ?att = "map (\<lambda>i. ProxyWithAccount req url (accounts ! i) meta body
                      (finalCreateBodyStream body) i ctx) [0..<k]"
  have ne: "accounts \<noteq> []" using k by auto
  have w2: "world ?s2 = ws 0" using w0 by simp
  have ab: "\<forall>j. 0 \<le> j \<and> j < k - 1 \<longrightarrow> proxyWithAccount H req url (accounts ! j) meta body
                   (finalCreateBodyStream body) j ctx (ws j) = (Inr None, ws (Suc j))"
    using absent by simp
  have loop: "tryAccounts H req url accounts meta body (finalCreateBodyStream body) ctx 0 ?s2 =
        (Inr (Some r), \<lparr>world = ws k, calls = calls ?s2 @ ?att\<rparr>)"
    by (rule tryAccounts_first_response[OF k(1) k(2) w2 ab hit])
  have run: "handleProxy H env req url ctx s = (Inr r, \<lparr>world = ws k, calls = calls ?s2 @ ?att\<rparr>)"
    by (simp add: handleProxy_some_accounts[OF prep ne] loop)
  have "filter (\<lambda>c. step_no c = 9) (drop (length (calls s)) (calls ?s2 @ ?att)) = ?att"
    by (simp add: new(1) none filter_selectedLog filter_attempts)
  with run show ?thesis by simp
qed

section \<open>The error after the last attempt\<close>

lemma digit_not_quote: "(d::nat) < 10 \<Longrightarrow> char_of (48 + d) \<noteq> SQ"
proof
  assume d: "d < 10" and eq: "char_of (48 + d) = SQ"
  then have "(of_char (char_of (48 + d)) :: nat) = of_char SQ" by simp
  then show False using d by simp
qed

lemma string_of_nat_no_quote: "SQ \<notin> set (string_of_nat n)"
proof (induction n rule: string_of_nat.induct)
  case (1 n)
  show ?case
  proof (cases "n < 10")
    case True
    then show ?thesis using digit_not_quote[of n] by (subst string_of_nat.simps) simp
  next
    case False
    have "n mod 10 < 10" by simp
    then have "char_of (48 + n mod 10) \<noteq> SQ" by (rule digit_not_quote)
    with False "1.IH" show ?thesis by (subst string_of_nat.simps) simp
  qed
qed

lemma sublist_ends_before:
  assumes "x \<notin> set B" and "sublist (xs @ [x]) (A @ B)"
  shows "sublist (xs @ [x]) A"
proof -
  from assms(2) obtain ps ss where eq: "A @ B = ps @ (xs @ [x]) @ ss"
    by (auto simp: sublist_def)
  then have "A @ B = (ps @ xs @ [x]) @ ss" by simp
  then obtain us where us: "(A = (ps @ xs @ [x]) @ us \<and> us @ B = ss) \<or> (A @ us = ps @ xs @ [x] \<and> B = us @ ss)"
    unfolding append_eq_append_conv2 by blast
  then show ?thesis
  proof
    assume "A = (ps @ xs @ [x]) @ us \<and> us @ B = ss"
    then have "A = ps @ (xs @ [x]) @ us" by simp
    then show ?thesis unfolding sublist_def by blast
  next
    assume h: "A @ us = ps @ xs @ [x] \<and> B = us @ ss"
    show ?thesis
    proof (cases us rule: rev_cases)
      case Nil
      with h have "A = ps @ (xs @ [x]) @ []" by simp
      then show ?thesis unfolding sublist_def by blast
    next
      case (snoc vs v)
      with h have "(A @ vs) @ [v] = (ps @ xs) @ [x]" by simp
      then have "v = x" by (simp only: append1_eq_conv)
      with snoc h assms(1) show ?thesis by simp
    qed
  qed
qed

lemma reauthCommand_ends: "\<exists>xs. reauthCommand acc = xs @ [SQ]"
  by (simp add: reauthCommand_def)

lemma handleProxy_all_absent:
  assumes prep: "handleProxy_prepare H req url ctx s = (Inr (body, meta, accounts), s1)"
    and ne: "accounts \<noteq> []"
    and w0: "ws 0 = world s1"
    and absent: "\<forall>i<length accounts. proxyWithAccount H req url (accounts ! i) meta body
                   (finalCreateBodyStream body) i ctx (ws i) = (Inr None, ws (Suc i))"
  shows "\<exists>s'. handleProxy H env req url ctx s =
               (Inl (allAccountsFailed H ctx accounts (ws (length accounts))), s') \<and>
             world s' = ws (length accounts) \<and>
             filter (\<lambda>c. step_no c = 9) (drop (length (calls s)) (calls s')) =
               map (\<lambda>i. ProxyWithAccount req url (accounts ! i) meta body
                      (finalCreateBodyStream body) i ctx) [0..<length accounts]"
proof -
  from prepare_calls[OF prep] obtain new where
    new: "calls s1 = calls s @ new" "steps_of new = [1, 2, 3, 4, 5, 6]"
    by auto
  have none: "filter (\<lambda>c. step_no c = 9) new = []"
    by (rule no_step_in) (simp_all add: new(2))
  let ?s2 = "s1\<lparr>calls := calls s1 @ selectedLog accounts env req url\<rparr>"
  let ?att = "map (\<lambda>i. ProxyWithAccount req url (accounts ! i) meta body
                      (finalCreateBodyStream body) i ctx) [0..<length accounts]"
  have w2: "world ?s2 = ws 0" using w0 by simp
  have ab: "\<forall>j. 0 \<le> j \<and> j < length accounts \<longrightarrow> proxyWithAccount H req url (accounts ! j) meta body
                   (finalCreateBodyStream body) j ctx (ws j) = (Inr None, ws (Suc j))"
    using absent by simp
  have loop: "tryAccounts H req url accounts meta body (finalCreateBodyStream body) ctx 0 ?s2 =
        (Inr None, \<lparr>world = ws (length accounts), calls = calls ?s2 @ ?att\<rparr>)"
    by (rule tryAccounts_all_absent[OF _ w2 ab]) simp
  have run: "handleProxy H env req url ctx s =
        (Inl (allAccountsFailed H ctx accounts (ws (length accounts))),
         \<lparr>world = ws (length accounts), calls = calls ?s2 @ ?att\<rparr>)"
    by (simp add: handleProxy_some_accounts[OF prep ne] loop)
  have "filter (\<lambda>c. step_no c = 9) (drop (length (calls s)) (calls ?s2 @ ?att)) = ?att"
    by (simp add: new(1) none filter_selectedLog filter_attempts)
  with run show ?thesis by simp
qed

text \<open>
  Claim C6. The accounts are \<open>N \<ge> 1\<close>, every attempt returns absent, and no account
  both has a refresh token and is judged expired. Then \<^verbatim>\<open>handleProxy\<close> throws a
  \<^verbatim>\<open>ServiceUnavailableError\<close> that carries the provider's name; its message is the constant
  \<^verbatim>\<open>ALL_ACCOUNTS_FAILED\<close> followed by \<open>(N attempted)\<close>, so it contains the decimal \<open>N\<close>,
  and a remediation command occurs in it only where the constant itself has one;
  \<^verbatim>\<open>proxyWithAccount\<close> has been called \<open>N\<close> times.
\<close>

theorem handleProxy_all_failed_generic:
  assumes prep: "handleProxy_prepare H req url ctx s = (Inr (body, meta, accounts), s1)"
    and ne: "accounts \<noteq> []"
    and w0: "ws 0 = world s1"
    and absent: "\<forall>i<length accounts. proxyWithAccount H req url (accounts ! i) meta body
                   (finalCreateBodyStream body) i ctx (ws i) = (Inr None, ws (Suc i))"
    and nobody: "\<forall>acc\<in>set accounts. \<not> (truthy (refresh_token acc) \<and>
                   isRefreshTokenLikelyExpired H acc (ws (length accounts)))"
  shows "\<exists>s' msg. handleProxy H env req url ctx s =
               (Inl (ServiceUnavailableError msg (provider_name (provider ctx))), s') \<and>
           msg = ALL_ACCOUNTS_FAILED H @ '' ('' @ string_of_nat (length accounts) @ '' attempted)'' \<and>
           sublist (string_of_nat (length accounts)) msg \<and>
           (\<forall>acc :: 'a account_scheme.
              sublist (reauthCommand acc) msg \<longrightarrow> sublist (reauthCommand acc) (ALL_ACCOUNTS_FAILED H)) \<and>
           length (filter (\<lambda>c. step_no c = 9) (drop (length (calls s)) (calls s'))) = length accounts"
proof -
  let ?msg = "ALL_ACCOUNTS_FAILED H @ '' ('' @ string_of_nat (length accounts) @ '' attempted)''"
  from handleProxy_all_absent[OF prep ne w0 absent, of env] obtain s' where
    run: "handleProxy H env req url ctx s =
               (Inl (allAccountsFailed H ctx accounts (ws (length accounts))), s')"
    and cnt: "filter (\<lambda>c. step_no c = 9) (drop (length (calls s)) (calls s')) =
               map (\<lambda>i. ProxyWithAccount req url (accounts ! i) meta body
                      (finalCreateBodyStream body) i ctx) [0..<length accounts]"
    by blast
  have "filter (\<lambda>acc. isRefreshTokenLikelyExpired H acc (ws (length accounts)))
          (filter (\<lambda>acc. truthy (refresh_token acc)) accounts) = []"
    using nobody by (simp add: filter_empty_conv)
  then have err: "allAccountsFailed H ctx accounts (ws (length accounts)) =
        ServiceUnavailableError ?msg (provider_name (provider ctx))"
    by (simp add: allAccountsFailed_def Let_def)
  have sub: "sublist (string_of_nat (length accounts)) ?msg"
    unfolding sublist_def
    by (intro exI[of _ "ALL_ACCOUNTS_FAILED H @ '' (''"] exI[of _ "'' attempted)''"]) simp
  have nocmd: "sublist (reauthCommand acc) ?msg \<longrightarrow> sublist (reauthCommand acc) (ALL_ACCOUNTS_FAILED H)"
    for acc :: "'a account_scheme"
  proof
    assume a: "sublist (reauthCommand acc) ?msg"
    obtain xs where xs: "reauthCommand acc = xs @ [SQ]" using reauthCommand_ends by blast
    have "SQ \<notin> set ('' ('' @ string_of_nat (length accounts) @ '' attempted)'')"
      using string_of_nat_no_quote by simp
    from sublist_ends_before[OF this] a xs
    show "sublist (reauthCommand acc) (ALL_ACCOUNTS_FAILED H)" by simp
  qed
  show ?thesis
    using run err sub nocmd cnt by simp
qed

text \<open>
  Claim C4. The accounts are not empty, every attempt returns absent, and at least one
  account has a refresh token and is judged expired. Then \<^verbatim>\<open>handleProxy\<close> throws a
  \<^verbatim>\<open>ServiceUnavailableError\<close> whose message lists the names of the affected accounts,
  which are exactly the accounts with a refresh token that are judged expired, in list
  order, and then one remediation command for each of them.
\<close>

theorem handleProxy_all_failed_reauth:
  assumes prep: "handleProxy_prepare H req url ctx s = (Inr (body, meta, accounts), s1)"
    and ne: "accounts \<noteq> []"
    and w0: "ws 0 = world s1"
    and absent: "\<forall>i<length accounts. proxyWithAccount H req url (accounts ! i) meta body
                   (finalCreateBodyStream body) i ctx (ws i) = (Inr None, ws (Suc i))"
    and somebody: "\<exists>acc\<in>set accounts. truthy (refresh_token acc) \<and>
                   isRefreshTokenLikelyExpired H acc (ws (length accounts))"
  shows "\<exists>s' affected. handleProxy H env req url ctx s =
           (Inl (ServiceUnavailableError
                  (''All accounts failed to proxy the request. OAuth tokens have expired for accounts: '' @
                   join '', '' (map name affected) @ ''.'' @ [NL, NL] @
                   ''Please re-authenticate:'' @ [NL] @ ''  '' @
                   join (NL # ''  '') (map reauthCommand affected))
                  (provider_name (provider ctx))), s') \<and>
           affected = filter (\<lambda>acc. truthy (refresh_token acc) \<and>
                        isRefreshTokenLikelyExpired H acc (ws (length accounts))) accounts \<and>
           affected \<noteq> [] \<and>
           (\<forall>acc\<in>set affected. refresh_token acc \<noteq> None) \<and>
           length (map reauthCommand affected) = length affected"
proof -
  let ?aff = "filter (\<lambda>acc. truthy (refresh_token acc) \<and>
                        isRefreshTokenLikelyExpired H acc (ws (length accounts))) accounts"
  from handleProxy_all_absent[OF prep ne w0 absent, of env] obtain s' where
    run: "handleProxy H env req url ctx s =
               (Inl (allAccountsFailed H ctx accounts (ws (length accounts))), s')"
    by blast
  have ff: "filter (\<lambda>acc. isRefreshTokenLikelyExpired H acc (ws (length accounts)))
          (filter (\<lambda>acc. truthy (refresh_token acc)) accounts) = ?aff"
    by simp
  have ane: "?aff \<noteq> []" using somebody by (simp add: filter_empty_conv)
  have err: "allAccountsFailed H ctx accounts (ws (length accounts)) =
        ServiceUnavailableError
                  (''All accounts failed to proxy the request. OAuth tokens have expired for accounts: '' @
                   join '', '' (map name ?aff) @ ''.'' @ [NL, NL] @
                   ''Please re-authenticate:'' @ [NL] @ ''  '' @
                   join (NL # ''  '') (map reauthCommand ?aff))
                  (provider_name (provider ctx))"
    unfolding allAccountsFailed_def Let_def ff using ane by simp
  have tok: "\<forall>acc\<in>set ?aff. refresh_token acc \<noteq> None"
    by (auto simp: truthy_def split: option.splits)
  show ?thesis using run err ane tok by simp
qed

text \<open>
  Claim C5. When the selection returns no account, \<^verbatim>\<open>handleProxy\<close> calls
  \<^verbatim>\<open>proxyUnauthenticated\<close> once, with the final body buffer and the stream factory over it,
  never calls \<^verbatim>\<open>proxyWithAccount\<close>, and its outcome is the outcome of that call.
\<close>

theorem handleProxy_unauthenticated:
  assumes prep: "handleProxy_prepare H req url ctx s = (Inr (body, meta, []), s1)"
    and un: "proxyUnauthenticated H req url meta body (finalCreateBodyStream body) ctx (world s1) = (res, w')"
  shows "\<exists>s'. handleProxy H env req url ctx s = (res, s') \<and> world s' = w' \<and>
           filter (\<lambda>c. step_no c = 7) (drop (length (calls s)) (calls s')) =
             [ProxyUnauthenticated req url meta body (finalCreateBodyStream body) ctx] \<and>
           filter (\<lambda>c. step_no c = 9) (drop (length (calls s)) (calls s')) = []"
proof -
  from prepare_calls[OF prep] obtain new where
    new: "calls s1 = calls s @ new" "steps_of new = [1, 2, 3, 4, 5, 6]"
    by auto
  have n9: "filter (\<lambda>c. step_no c = 9) new = []"
    by (rule no_step_in) (simp_all add: new(2))
  have n7: "filter (\<lambda>c. step_no c = 7) new = []"
    by (rule no_step_in) (simp_all add: new(2))
  show ?thesis
    by (simp add: handleProxy_no_accounts[OF prep] un new(1) n7 n9)
qed

section \<open>The order of the steps\<close>

lemma precedes_iff:
  "a \<noteq> x \<Longrightarrow> precedes a x L \<longleftrightarrow> (\<forall>A B. L = A @ x # B \<longrightarrow> a \<in> set A)"
proof (induction L)
  case Nil
  then show ?case by simp
next
  case (Cons y ys)
  show ?case
  proof (cases "y = a")
    case True
    then show ?thesis using Cons.prems by (auto simp: Cons_eq_append_conv)
  next
    case na: False
    show ?thesis
    proof (cases "y = x")
      case True
      then have "y # ys = [] @ x # ys" by simp
      then have "\<not> (\<forall>A B. y # ys = A @ x # B \<longrightarrow> a \<in> set A)" by (metis empty_iff list.set(1))
      then show ?thesis using na True by simp
    next
      case nx: False
      have "(\<forall>A B. y # ys = A @ x # B \<longrightarrow> a \<in> set A) \<longleftrightarrow>
            (\<forall>A B. ys = A @ x # B \<longrightarrow> a \<in> set A)"
      proof
        assume h: "\<forall>A B. y # ys = A @ x # B \<longrightarrow> a \<in> set A"
        show "\<forall>A B. ys = A @ x # B \<longrightarrow> a \<in> set A"
        proof (intro allI impI)
          fix A B assume "ys = A @ x # B"
          then have "y # ys = (y # A) @ x # B" by simp
          with h have "a \<in> set (y # A)" by blast
          with na show "a \<in> set A" by simp
        qed
      next
        assume h: "\<forall>A B. ys = A @ x # B \<longrightarrow> a \<in> set A"
        show "\<forall>A B. y # ys = A @ x # B \<longrightarrow> a \<in> set A"
        proof (intro allI impI)
          fix A B assume e: "y # ys = A @ x # B"
          with nx obtain A' where "A = y # A'" "ys = A' @ x # B"
            by (cases A) auto
          with h show "a \<in> set A" by auto
        qed
      qed
      then show ?thesis using na nx Cons by simp
    qed
  qed
qed

lemma handleProxy_calls:
  assumes "handleProxy H env req url ctx s = (out, s')"
  shows "\<exists>new. calls s' = calls s @ new \<and>
           (prefix (steps_of new) [1, 2, 3, 4, 5, 6] \<or> steps_of new = [1, 2, 3, 4, 5, 6, 7] \<or>
            (\<exists>n. steps_of new = [1, 2, 3, 4, 5, 6] @ replicate n 9))"
proof -
  obtain pr s1 where prep: "handleProxy_prepare H req url ctx s = (pr, s1)"
    by (cases "handleProxy_prepare H req url ctx s")
  from prepare_calls[OF prep] obtain new where
    new: "calls s1 = calls s @ new" "prefix (steps_of new) [1, 2, 3, 4, 5, 6]"
         "(\<exists>x. pr = Inr x) \<longrightarrow> steps_of new = [1, 2, 3, 4, 5, 6]"
    by auto
  show ?thesis
  proof (cases pr)
    case (Inl e)
    with prep have "handleProxy H env req url ctx s = (Inl e, s1)"
      by (simp add: handleProxy_prepare_throws)
    with assms have "s' = s1" by simp
    with new show ?thesis by auto
  next
    case (Inr x)
    obtain body meta accounts where x: "x = (body, meta, accounts)" by (cases x)
    have prep': "handleProxy_prepare H req url ctx s = (Inr (body, meta, accounts), s1)"
      using prep Inr x by simp
    have st: "steps_of new = [1, 2, 3, 4, 5, 6]" using new(3) Inr by blast
    show ?thesis
    proof (cases "accounts = []")
      case True
      with prep' have p0: "handleProxy_prepare H req url ctx s = (Inr (body, meta, []), s1)" by simp
      have "calls s' = calls s1 @ [ProxyUnauthenticated req url meta body (finalCreateBodyStream body) ctx]"
        using assms handleProxy_no_accounts[OF p0, of env] by (auto split: prod.splits)
      then have "calls s' = calls s @ (new @ [ProxyUnauthenticated req url meta body (finalCreateBodyStream body) ctx])"
        using new(1) by simp
      moreover have "steps_of (new @ [ProxyUnauthenticated req url meta body (finalCreateBodyStream body) ctx]) = [1, 2, 3, 4, 5, 6, 7]"
        by (simp add: steps_of_append st) (simp add: steps_of_def)
      ultimately show ?thesis by blast
    next
      case False
      let ?s2 = "s1\<lparr>calls := calls s1 @ selectedLog accounts env req url\<rparr>"
      obtain res s3 where t: "tryAccounts H req url accounts meta body (finalCreateBodyStream body) ctx 0 ?s2 = (res, s3)"
        by (cases "tryAccounts H req url accounts meta body (finalCreateBodyStream body) ctx 0 ?s2")
      from tryAccounts_calls[OF t] obtain k where
        k: "calls s3 = calls ?s2 @ map (\<lambda>j. ProxyWithAccount req url (accounts ! j) meta body (finalCreateBodyStream body) j ctx) [0..<k]"
        by blast
      have "s' = s3"
        using assms handleProxy_some_accounts[OF prep' False, of env] t
        by (auto split: sum.splits option.splits)
      then have "calls s' = calls s @ (new @ selectedLog accounts env req url @
          map (\<lambda>j. ProxyWithAccount req url (accounts ! j) meta body (finalCreateBodyStream body) j ctx) [0..<k])"
        using k new(1) by simp
      moreover have "steps_of (new @ selectedLog accounts env req url @
          map (\<lambda>j. ProxyWithAccount req url (accounts ! j) meta body (finalCreateBodyStream body) j ctx) [0..<k])
          = [1, 2, 3, 4, 5, 6] @ replicate k 9"
        by (simp add: steps_of_append st steps_selectedLog steps_attempts)
      ultimately show ?thesis by blast
    qed
  qed
qed

lemma handleProxy_validation_throws:
  assumes "trackClientVersion H (req_headers req ''user-agent'') (world s) = (Inr u, w1)"
    and "validateProviderPath H (provider ctx) (pathname url) w1 = (Inl e, w2)"
  shows "handleProxy H env req url ctx s =
           (Inl e, \<lparr>world = w2, calls = calls s @
              [TrackClientVersion (req_headers req ''user-agent''),
               ValidateProviderPath (provider ctx) (pathname url)]\<rparr>)"
proof -
  have "handleProxy_prepare H req url ctx s =
           (Inl e, \<lparr>world = w2, calls = calls s @
              [TrackClientVersion (req_headers req ''user-agent''),
               ValidateProviderPath (provider ctx) (pathname url)]\<rparr>)"
    using assms by (simp add: handleProxy_prepare_def andThen_def invoke_def)
  then show ?thesis by (rule handleProxy_prepare_throws)
qed

lemma shape_precedes:
  assumes "prefix L [1, 2, 3, 4, 5, 6] \<or> L = [1, 2, 3, 4, 5, 6, 7] \<or>
            (\<exists>n. L = [1, 2, 3, 4, 5, 6] @ replicate n 9)"
  shows "precedes 4 5 L \<and> precedes 4 6 L \<and> precedes 2 3 L \<and> precedes 2 4 L \<and> precedes 2 5 L \<and>
         precedes 2 6 L \<and> precedes 2 7 L \<and> precedes 2 9 L"
  using assms by (auto simp: prefix_Cons)

text \<open>
  Claim C10. If \<^verbatim>\<open>validateProviderPath\<close> throws, \<^verbatim>\<open>handleProxy\<close> throws the same error and
  has called nothing but \<^verbatim>\<open>trackClientVersion\<close> and \<^verbatim>\<open>validateProviderPath\<close>. In every
  run the calls follow the steps 1 to 6 in order, then either step 7 or attempts of step 9;
  so validation (step 2) comes before body preparation, interception, metadata, selection
  and proxying, and interception (step 4) comes before metadata creation (step 5) and
  account selection (step 6).
\<close>

theorem handleProxy_order:
  "(\<forall>u w1 e w2.
      trackClientVersion H (req_headers req ''user-agent'') (world s) = (Inr u, w1) \<longrightarrow>
      validateProviderPath H (provider ctx) (pathname url) w1 = (Inl e, w2) \<longrightarrow>
      handleProxy H env req url ctx s =
        (Inl e, \<lparr>world = w2, calls = calls s @
           [TrackClientVersion (req_headers req ''user-agent''),
            ValidateProviderPath (provider ctx) (pathname url)]\<rparr>)) \<and>
   (\<forall>out s'. handleProxy H env req url ctx s = (out, s') \<longrightarrow>
      (\<exists>new. calls s' = calls s @ new \<and>
         (prefix (steps_of new) [1, 2, 3, 4, 5, 6] \<or> steps_of new = [1, 2, 3, 4, 5, 6, 7] \<or>
          (\<exists>n. steps_of new = [1, 2, 3, 4, 5, 6] @ replicate n 9)) \<and>
         precedes 4 5 (steps_of new) \<and> precedes 4 6 (steps_of new) \<and>
         precedes 2 3 (steps_of new) \<and> precedes 2 4 (steps_of new) \<and>
         precedes 2 5 (steps_of new) \<and> precedes 2 6 (steps_of new) \<and>
         precedes 2 7 (steps_of new) \<and> precedes 2 9 (steps_of new)))"
proof (intro conjI allI impI)
  fix u w1 e w2
  assume "trackClientVersion H (req_headers req ''user-agent'') (world s) = (Inr u, w1)"
    and "validateProviderPath H (provider ctx) (pathname url) w1 = (Inl e, w2)"
  then show "handleProxy H env req url ctx s =
        (Inl e, \<lparr>world = w2, calls = calls s @
           [TrackClientVersion (req_headers req ''user-agent''),
            ValidateProviderPath (provider ctx) (pathname url)]\<rparr>)"
    by (rule handleProxy_validation_throws)
next
  fix out s'
  assume "handleProxy H env req url ctx s = (out, s')"
  from handleProxy_calls[OF this] obtain new where
    new: "calls s' = calls s @ new"
      "prefix (steps_of new) [1, 2, 3, 4, 5, 6] \<or> steps_of new = [1, 2, 3, 4, 5, 6, 7] \<or>
          (\<exists>n. steps_of new = [1, 2, 3, 4, 5, 6] @ replicate n 9)"
    by blast
  from shape_precedes[OF new(2)] new
  show "\<exists>new. calls s' = calls s @ new \<and>
         (prefix (steps_of new) [1, 2, 3, 4, 5, 6] \<or> steps_of new = [1, 2, 3, 4, 5, 6, 7] \<or>
          (\<exists>n. steps_of new = [1, 2, 3, 4, 5, 6] @ replicate n 9)) \<and>
         precedes 4 5 (steps_of new) \<and> precedes 4 6 (steps_of new) \<and>
         precedes 2 3 (steps_of new) \<and> precedes 2 4 (steps_of new) \<and>
         precedes 2 5 (steps_of new) \<and> precedes 2 6 (steps_of new) \<and>
         precedes 2 7 (steps_of new) \<and> precedes 2 9 (steps_of new)"
    by blast
qed

section \<open>The request body\<close>

lemma delivered_steps: "delivered c \<noteq> None \<Longrightarrow> step_no c = 7 \<or> step_no c = 9"
  by (cases c) simp_all

lemma not_delivered:
  assumes "prefix (steps_of new) [1, 2, 3, 4, 5, 6]" and "c \<in> set new"
  shows "delivered c = None"
proof (rule ccontr)
  assume "delivered c \<noteq> None"
  then have st: "step_no c = 7 \<or> step_no c = 9" by (rule delivered_steps)
  then have "step_no c \<in> set (steps_of new)" using assms(2) by (auto simp: steps_of_def)
  moreover have "set (steps_of new) \<subseteq> set [1, 2, 3, 4, 5, 6]" using assms(1) by (rule set_mono_prefix)
  ultimately show False using st by auto
qed

text \<open>
  Claim C2. The request has a body \<open>original\<close>, and the interception returned \<open>ir\<close>. Let
  \<open>final\<close> be the replacement body of \<open>ir\<close> if there is one, and \<open>original\<close> otherwise.
  Then every call of \<^verbatim>\<open>proxyWithAccount\<close> and of \<^verbatim>\<open>proxyUnauthenticated\<close> in the run
  receives the buffer \<open>final\<close> and the same factory; and each invocation of that factory,
  whatever has been read from the streams made before, allocates a new stream holding
  \<open>final\<close> and leaves the other streams as they are.
\<close>

theorem handleProxy_same_body:
  assumes "trackClientVersion H (req_headers req ''user-agent'') (world s) = (Inr u, w1)"
    and "validateProviderPath H (provider ctx) (pathname url) w1 = (Inr v, w2)"
    and "prepareRequestBody H req w2 = (Inr (Some original), w3)"
    and "interceptAndModifyRequest H (Some original) (dbOps ctx) w3 = (Inr ir, w4)"
    and run: "handleProxy H env req url ctx s = (out, s')"
    and final: "final = (case modifiedBody ir of Some replacement \<Rightarrow> replacement | None \<Rightarrow> original)"
  shows "(\<forall>c\<in>set (drop (length (calls s)) (calls s')).
            step_no c = 7 \<or> step_no c = 9 \<longrightarrow>
            delivered c = Some (Some final, finalCreateBodyStream (Some final))) \<and>
         (\<forall>streams. finalCreateBodyStream (Some final) streams =
            (Some (length streams), streams @ [final]))"
proof
  show "\<forall>streams. finalCreateBodyStream (Some final) streams =
            (Some (length streams), streams @ [final])"
    by (simp add: finalCreateBodyStream_def Response_body_def)
  obtain pr s1 where prep: "handleProxy_prepare H req url ctx s = (pr, s1)"
    by (cases "handleProxy_prepare H req url ctx s")
  from prepare_calls[OF prep] obtain new where
    new: "calls s1 = calls s @ new" "prefix (steps_of new) [1, 2, 3, 4, 5, 6]"
    by auto
  have old: "\<forall>c\<in>set new. delivered c = None"
    using not_delivered[OF new(2)] by blast
  have old': "\<forall>c\<in>set new. \<not> (step_no c = 7 \<or> step_no c = 9)"
  proof
    fix c assume "c \<in> set new"
    then have "step_no c = 0 \<or> step_no c \<in> set (steps_of new)" by (auto simp: steps_of_def)
    moreover have "set (steps_of new) \<subseteq> set [1, 2, 3, 4, 5, 6]" using new(2) by (rule set_mono_prefix)
    ultimately show "\<not> (step_no c = 7 \<or> step_no c = 9)" by auto
  qed
  show "\<forall>c\<in>set (drop (length (calls s)) (calls s')).
            step_no c = 7 \<or> step_no c = 9 \<longrightarrow>
            delivered c = Some (Some final, finalCreateBodyStream (Some final))"
  proof (cases pr)
    case (Inl e)
    with prep have "handleProxy H env req url ctx s = (Inl e, s1)"
      by (simp add: handleProxy_prepare_throws)
    with run have "s' = s1" by simp
    then show ?thesis using new(1) old' by simp
  next
    case (Inr x)
    obtain body meta accounts where x: "x = (body, meta, accounts)" by (cases x)
    have prep': "handleProxy_prepare H req url ctx s = (Inr (body, meta, accounts), s1)"
      using prep Inr x by simp
    have body: "body = Some final"
      using prepare_success[OF assms(1-4) prep'] final by (simp split: option.splits)
    show ?thesis
    proof (cases "accounts = []")
      case True
      with prep' have p0: "handleProxy_prepare H req url ctx s = (Inr (body, meta, []), s1)" by simp
      have "calls s' = calls s1 @ [ProxyUnauthenticated req url meta body (finalCreateBodyStream body) ctx]"
        using run handleProxy_no_accounts[OF p0, of env] by (auto split: prod.splits)
      then show ?thesis using new(1) old' body by auto
    next
      case False
      let ?s2 = "s1\<lparr>calls := calls s1 @ selectedLog accounts env req url\<rparr>"
      obtain res s3 where t: "tryAccounts H req url accounts meta body (finalCreateBodyStream body) ctx 0 ?s2 = (res, s3)"
        by (cases "tryAccounts H req url accounts meta body (finalCreateBodyStream body) ctx 0 ?s2")
      from tryAccounts_calls[OF t] obtain k where
        k: "calls s3 = calls ?s2 @ map (\<lambda>j. ProxyWithAccount req url (accounts ! j) meta body (finalCreateBodyStream body) j ctx) [0..<k]"
        by blast
      have "s' = s3"
        using run handleProxy_some_accounts[OF prep' False, of env] t
        by (auto split: sum.splits option.splits)
      then have "drop (length (calls s)) (calls s') = new @ selectedLog accounts env req url @
          map (\<lambda>j. ProxyWithAccount req url (accounts ! j) meta body (finalCreateBodyStream body) j ctx) [0..<k]"
        using k new(1) by simp
      then show ?thesis using old' body by (auto simp: selectedLog_def)
    qed
  qed
qed

section \<open>Worked examples\<close>

lemma demo_prepare:
  "handleProxy_prepare demoHandlers demoRequest demoUrl (demoContext accounts replacement) demoStart =
     (Inr (case replacement of Some m \<Rightarrow> Some m | None \<Rightarrow> Some [1, 2, 3], \<lparr>agentUsed = Undefined\<rparr>, accounts),
      \<lparr>world = 0, calls =
        [TrackClientVersion (Some ''claude-cli/1.0''),
         ValidateProviderPath \<lparr>provider_name = ''anthropic''\<rparr> ''/v1/messages'',
         PrepareRequestBody demoRequest,
         InterceptAndModifyRequest (Some [1, 2, 3]) (accounts, replacement),
         CreateRequestMetadata demoRequest demoUrl,
         SelectAccountsForRequest \<lparr>agentUsed = Undefined\<rparr> (demoContext accounts replacement)]\<rparr>)"
proof -
  have ua: "req_headers demoRequest ''user-agent'' = Some ''claude-cli/1.0''"
    by (simp add: demoRequest_def)
  have path: "pathname demoUrl = ''/v1/messages''"
    by (simp add: demoUrl_def)
  show ?thesis
    by (simp add: handleProxy_prepare_def andThen_def invoke_def succeed_def truthy_str_def Let_def
          demoHandlers_def demoContext_def demoStart_def ua path)
qed

text \<open>
  The example for C1: of three accounts the second serves the request, after two attempts.
\<close>

theorem handleProxy_first_response_witness:
  "\<exists>s'. handleProxy demoHandlers demoEnv demoRequest demoUrl
           (demoContext [acctKey, acctGood, acctOld] None) demoStart = (Inr ''200 via good'', s') \<and>
        world s' = 2 \<and>
        filter (\<lambda>c. step_no c = 9) (calls s') =
          [ProxyWithAccount demoRequest demoUrl acctKey \<lparr>agentUsed = Undefined\<rparr> (Some [1, 2, 3])
             (finalCreateBodyStream (Some [1, 2, 3])) 0 (demoContext [acctKey, acctGood, acctOld] None),
           ProxyWithAccount demoRequest demoUrl acctGood \<lparr>agentUsed = Undefined\<rparr> (Some [1, 2, 3])
             (finalCreateBodyStream (Some [1, 2, 3])) 1 (demoContext [acctKey, acctGood, acctOld] None)]"
proof -
  let ?accs = "[acctKey, acctGood, acctOld]"
  let ?ctx = "demoContext ?accs None"
  let ?b = "Some [1, 2, 3] :: bytes option"
  note prep = demo_prepare[of ?accs None, simplified]
  have k: "0 < (2::nat)" "2 \<le> length ?accs" by simp_all
  have w0: "(\<lambda>i. i) 0 = world \<lparr>world = 0::nat, calls =
        [TrackClientVersion (Some ''claude-cli/1.0''),
         ValidateProviderPath \<lparr>provider_name = ''anthropic''\<rparr> ''/v1/messages'',
         PrepareRequestBody demoRequest,
         InterceptAndModifyRequest (Some [1, 2, 3]) (?accs, None),
         CreateRequestMetadata demoRequest demoUrl,
         SelectAccountsForRequest \<lparr>agentUsed = Undefined\<rparr> ?ctx]\<rparr>" by simp
  have absent: "\<forall>i<2 - 1. proxyWithAccount demoHandlers demoRequest demoUrl (?accs ! i)
       \<lparr>agentUsed = Undefined\<rparr> ?b (finalCreateBodyStream ?b) i ?ctx ((\<lambda>i. i) i) = (Inr None, (\<lambda>i. i) (Suc i))"
    by (simp add: demoHandlers_def acctKey_def)
  have hit: "proxyWithAccount demoHandlers demoRequest demoUrl (?accs ! (2 - 1))
       \<lparr>agentUsed = Undefined\<rparr> ?b (finalCreateBodyStream ?b) (2 - 1) ?ctx ((\<lambda>i. i) (2 - 1)) =
       (Inr (Some ''200 via good''), (\<lambda>i. i) 2)"
    by (simp add: demoHandlers_def acctGood_def)
  from handleProxy_first_response[OF prep k w0 absent hit, of demoEnv]
  show ?thesis by (simp add: demoStart_def upt_rec[of 0] upt_rec[of 1] upt_rec[of 2] numeral_2_eq_2)
qed

text \<open>The example for C5: no account is selected.\<close>

theorem handleProxy_unauthenticated_witness:
  "\<exists>s'. handleProxy demoHandlers demoEnv demoRequest demoUrl (demoContext [] None) demoStart =
           (Inr ''200 anonymous'', s') \<and>
        world s' = 1 \<and>
        filter (\<lambda>c. step_no c = 7) (calls s') =
          [ProxyUnauthenticated demoRequest demoUrl \<lparr>agentUsed = Undefined\<rparr> (Some [1, 2, 3])
             (finalCreateBodyStream (Some [1, 2, 3])) (demoContext [] None)] \<and>
        filter (\<lambda>c. step_no c = 9) (calls s') = []"
proof -
  note prep = demo_prepare[of "[]" None, simplified]
  have un: "proxyUnauthenticated demoHandlers demoRequest demoUrl \<lparr>agentUsed = Undefined\<rparr> (Some [1, 2, 3])
      (finalCreateBodyStream (Some [1, 2, 3])) (demoContext [] None)
      (world \<lparr>world = 0::nat, calls =
        [TrackClientVersion (Some ''claude-cli/1.0''),
         ValidateProviderPath \<lparr>provider_name = ''anthropic''\<rparr> ''/v1/messages'',
         PrepareRequestBody demoRequest,
         InterceptAndModifyRequest (Some [1, 2, 3]) ([], None),
         CreateRequestMetadata demoRequest demoUrl,
         SelectAccountsForRequest \<lparr>agentUsed = Undefined\<rparr> (demoContext [] None)]\<rparr>) = (Inr ''200 anonymous'', 1)"
    by (simp add: demoHandlers_def)
  from handleProxy_unauthenticated[OF prep un, of demoEnv]
  show ?thesis by (simp add: demoStart_def)
qed

text \<open>
  The example for C6: an account without refresh token and one whose token is not judged
  expired, both failing.
\<close>

theorem handleProxy_all_failed_generic_witness:
  "\<exists>s'. handleProxy demoHandlers demoEnv demoRequest demoUrl
           (demoContext [acctKey, acctFresh] None) demoStart =
           (Inl (ServiceUnavailableError ''All accounts failed to proxy the request (2 attempted)''
                   ''anthropic''), s') \<and>
         length (filter (\<lambda>c. step_no c = 9) (calls s')) = 2"
proof -
  let ?accs = "[acctKey, acctFresh]"
  let ?ctx = "demoContext ?accs None"
  let ?b = "Some [1, 2, 3] :: bytes option"
  note prep = demo_prepare[of ?accs None, simplified]
  have ne: "?accs \<noteq> []" by simp
  have w0: "(\<lambda>i. i) 0 = world \<lparr>world = 0::nat, calls =
        [TrackClientVersion (Some ''claude-cli/1.0''),
         ValidateProviderPath \<lparr>provider_name = ''anthropic''\<rparr> ''/v1/messages'',
         PrepareRequestBody demoRequest,
         InterceptAndModifyRequest (Some [1, 2, 3]) (?accs, None),
         CreateRequestMetadata demoRequest demoUrl,
         SelectAccountsForRequest \<lparr>agentUsed = Undefined\<rparr> ?ctx]\<rparr>" by simp
  have absent: "\<forall>i<length ?accs. proxyWithAccount demoHandlers demoRequest demoUrl (?accs ! i)
       \<lparr>agentUsed = Undefined\<rparr> ?b (finalCreateBodyStream ?b) i ?ctx ((\<lambda>i. i) i) = (Inr None, (\<lambda>i. i) (Suc i))"
    by (simp add: demoHandlers_def acctKey_def acctFresh_def All_less_Suc)
  have nobody: "\<forall>acc\<in>set ?accs. \<not> (truthy (refresh_token acc) \<and>
       isRefreshTokenLikelyExpired demoHandlers acc ((\<lambda>i. i) (length ?accs)))"
    by (simp add: demoHandlers_def acctKey_def acctFresh_def)
  have two: "string_of_nat (Suc (Suc 0)) = ''2''"
    by code_simp
  from handleProxy_all_failed_generic[OF prep ne w0 absent nobody, of demoEnv]
  show ?thesis
    by (auto simp: demoStart_def demoContext_def demoHandlers_def two)
qed

text \<open>
  The example for C4: three failing accounts, two of them with an expired refresh token,
  one of these with a single quote in its name.
\<close>

theorem handleProxy_all_failed_reauth_witness:
  "\<exists>s'. handleProxy demoHandlers demoEnv demoRequest demoUrl
           (demoContext [acctQuote, acctKey, acctOld] None) demoStart =
           (Inl (ServiceUnavailableError
              (''All accounts failed to proxy the request. OAuth tokens have expired for accounts: '' @
               ''o'' @ [SQ] @ ''neil, old.'' @ [NL, NL] @ ''Please re-authenticate:'' @ [NL] @
               ''  bun run cli --reauthenticate '' @ [SQ] @ ''o'' @ [SQ, BS, SQ, SQ] @ ''neil'' @ [SQ, NL] @
               ''  bun run cli --reauthenticate '' @ [SQ] @ ''old'' @ [SQ])
              ''anthropic''), s')"
proof -
  let ?accs = "[acctQuote, acctKey, acctOld]"
  let ?ctx = "demoContext ?accs None"
  let ?b = "Some [1, 2, 3] :: bytes option"
  note prep = demo_prepare[of ?accs None, simplified]
  have ne: "?accs \<noteq> []" by simp
  have w0: "(\<lambda>i. i) 0 = world \<lparr>world = 0::nat, calls =
        [TrackClientVersion (Some ''claude-cli/1.0''),
         ValidateProviderPath \<lparr>provider_name = ''anthropic''\<rparr> ''/v1/messages'',
         PrepareRequestBody demoRequest,
         InterceptAndModifyRequest (Some [1, 2, 3]) (?accs, None),
         CreateRequestMetadata demoRequest demoUrl,
         SelectAccountsForRequest \<lparr>agentUsed = Undefined\<rparr> ?ctx]\<rparr>" by simp
  have absent: "\<forall>i<length ?accs. proxyWithAccount demoHandlers demoRequest demoUrl (?accs ! i)
       \<lparr>agentUsed = Undefined\<rparr> ?b (finalCreateBodyStream ?b) i ?ctx ((\<lambda>i. i) i) = (Inr None, (\<lambda>i. i) (Suc i))"
    by (simp add: demoHandlers_def acctKey_def acctQuote_def acctOld_def All_less_Suc)
  have somebody: "\<exists>acc\<in>set ?accs. truthy (refresh_token acc) \<and>
       isRefreshTokenLikelyExpired demoHandlers acc ((\<lambda>i. i) (length ?accs))"
    by (simp add: demoHandlers_def acctOld_def truthy_def)
  from handleProxy_all_failed_reauth[OF prep ne w0 absent somebody, of demoEnv]
  show ?thesis
    by (auto simp: demoContext_def demoHandlers_def acctKey_def acctQuote_def acctOld_def
          truthy_def reauthCommand_def)
qed

lemma demo_run_replaced:
  "handleProxy demoHandlers demoEnv demoRequest demoUrl
     (demoContext [acctKey, acctGood] (Some [9, 9])) demoStart =
   (Inr ''200 via good'',
    \<lparr>world = 2, calls =
       [TrackClientVersion (Some ''claude-cli/1.0''),
        ValidateProviderPath \<lparr>provider_name = ''anthropic''\<rparr> ''/v1/messages'',
        PrepareRequestBody demoRequest,
        InterceptAndModifyRequest (Some [1, 2, 3]) ([acctKey, acctGood], Some [9, 9]),
        CreateRequestMetadata demoRequest demoUrl,
        SelectAccountsForRequest \<lparr>agentUsed = Undefined\<rparr> (demoContext [acctKey, acctGood] (Some [9, 9])),
        LogInfo ''Selected 2 accounts: key, good'',
        ProxyWithAccount demoRequest demoUrl acctKey \<lparr>agentUsed = Undefined\<rparr> (Some [9, 9])
          (finalCreateBodyStream (Some [9, 9])) 0 (demoContext [acctKey, acctGood] (Some [9, 9])),
        ProxyWithAccount demoRequest demoUrl acctGood \<lparr>agentUsed = Undefined\<rparr> (Some [9, 9])
          (finalCreateBodyStream (Some [9, 9])) 1 (demoContext [acctKey, acctGood] (Some [9, 9]))]\<rparr>)"
proof -
  let ?accs = "[acctKey, acctGood]"
  note prep = demo_prepare[of ?accs "Some [9, 9]", simplified]
  have ne: "?accs \<noteq> []" by simp
  have two: "string_of_nat (Suc (Suc 0)) = ''2''" by code_simp
  have names: "name acctKey = ''key''" "name acctGood = ''good''"
    by (simp_all add: acctKey_def acctGood_def)
  have dbg: "\<not> debugLogging demoEnv" by (simp add: debugLogging_def demoEnv_def)
  have a0: "proxyWithAccount demoHandlers demoRequest demoUrl acctKey m b fac i ctx w = (Inr None, Suc w)"
    for m b fac i ctx w
    by (simp add: demoHandlers_def acctKey_def)
  have a1: "proxyWithAccount demoHandlers demoRequest demoUrl acctGood m b fac i ctx w =
        (Inr (Some ''200 via good''), Suc w)"
    for m b fac i ctx w
    by (simp add: demoHandlers_def acctGood_def)
  show ?thesis
    unfolding handleProxy_some_accounts[OF prep ne]
    by (simp add: selectedLog_def two names dbg tryAccounts_absent_step a0
          tryAccounts_response_step a1 numeral_2_eq_2)
qed

text \<open>
  The example for C2: the interception replaces the body \<open>[1, 2, 3]\<close> by \<open>[9, 9]\<close>; both
  attempts receive \<open>[9, 9]\<close>, and the factory adds a third stream to a store of two.
\<close>

theorem handleProxy_same_body_witness:
  "map delivered
     (filter (\<lambda>c. step_no c = 7 \<or> step_no c = 9)
        (calls (snd (handleProxy demoHandlers demoEnv demoRequest demoUrl
                       (demoContext [acctKey, acctGood] (Some [9, 9])) demoStart)))) =
     [Some (Some [9, 9], finalCreateBodyStream (Some [9, 9])),
      Some (Some [9, 9], finalCreateBodyStream (Some [9, 9]))] \<and>
   finalCreateBodyStream (Some [9, 9]) [[], [3]] = (Some 2, [[], [3], [9, 9]])"
proof -
  let ?ctx = "demoContext [acctKey, acctGood] (Some [9, 9])"
  have t: "trackClientVersion demoHandlers (req_headers demoRequest ''user-agent'') (world demoStart) =
       (Inr (), 0)"
    by (simp add: demoHandlers_def demoStart_def)
  have v: "validateProviderPath demoHandlers (provider ?ctx) (pathname demoUrl) 0 = (Inr (), 0)"
    by (simp add: demoHandlers_def demoUrl_def)
  have p: "prepareRequestBody demoHandlers demoRequest 0 = (Inr (Some [1, 2, 3]), 0)"
    by (simp add: demoHandlers_def)
  have i: "interceptAndModifyRequest demoHandlers (Some [1, 2, 3]) (dbOps ?ctx) 0 =
       (Inr \<lparr>modifiedBody = Some [9, 9], agentUsed = Undefined, originalModel = Undefined,
              appliedModel = Undefined\<rparr>, 0)"
    by (simp add: demoHandlers_def demoContext_def)
  have f: "[9, 9] = (case modifiedBody \<lparr>modifiedBody = Some [9, 9], agentUsed = Undefined,
        originalModel = Undefined, appliedModel = Undefined\<rparr> of
          Some replacement \<Rightarrow> replacement | None \<Rightarrow> [1, 2, 3 :: 8 word])"
    by simp
  have s0: "calls demoStart = []" by (simp add: demoStart_def)
  from handleProxy_same_body[OF t v p i demo_run_replaced f]
  show ?thesis unfolding demo_run_replaced snd_conv s0 by simp
qed

text \<open>
  The example for C10: a path the provider rejects, and the steps of a run that succeeds at
  the second account.
\<close>

theorem handleProxy_order_witness:
  "handleProxy demoHandlers demoEnv demoRequest \<lparr>pathname = ''/v2/other''\<rparr>
     (demoContext [acctKey, acctGood] None) demoStart =
     (Inl (ValidationError ''unsupported path''),
      \<lparr>world = 0, calls =
         [TrackClientVersion (Some ''claude-cli/1.0''),
          ValidateProviderPath \<lparr>provider_name = ''anthropic''\<rparr> ''/v2/other'']\<rparr>) \<and>
   (\<exists>new. calls (snd (handleProxy demoHandlers demoEnv demoRequest demoUrl
                        (demoContext [acctKey, acctGood] (Some [9, 9])) demoStart)) = new \<and>
          steps_of new = [1, 2, 3, 4, 5, 6, 9, 9] \<and>
          precedes 4 5 (steps_of new) \<and> precedes 4 6 (steps_of new) \<and>
          precedes 2 3 (steps_of new) \<and> precedes 2 9 (steps_of new))"
proof -
  let ?ctx = "demoContext [acctKey, acctGood] None"
  let ?bad = "\<lparr>pathname = ''/v2/other''\<rparr>"
  have t: "trackClientVersion demoHandlers (req_headers demoRequest ''user-agent'') (world demoStart) =
       (Inr (), 0)"
    by (simp add: demoHandlers_def demoStart_def)
  have v: "validateProviderPath demoHandlers (provider ?ctx) (pathname ?bad) 0 =
       (Inl (ValidationError ''unsupported path''), 0)"
    by (simp add: demoHandlers_def)
  from handleProxy_order[of demoHandlers demoRequest demoStart ?ctx ?bad demoEnv] t v
  have a: "handleProxy demoHandlers demoEnv demoRequest ?bad ?ctx demoStart =
     (Inl (ValidationError ''unsupported path''),
      \<lparr>world = 0, calls = calls demoStart @
         [TrackClientVersion (req_headers demoRequest ''user-agent''),
          ValidateProviderPath (provider ?ctx) (pathname ?bad)]\<rparr>)"
    by blast
  from handleProxy_order[of demoHandlers demoRequest demoStart
      "demoContext [acctKey, acctGood] (Some [9, 9])" demoUrl demoEnv] demo_run_replaced
  have b: "\<exists>new. calls (snd (handleProxy demoHandlers demoEnv demoRequest demoUrl
                        (demoContext [acctKey, acctGood] (Some [9, 9])) demoStart)) = calls demoStart @ new \<and>
          precedes 4 5 (steps_of new) \<and> precedes 4 6 (steps_of new) \<and>
          precedes 2 3 (steps_of new) \<and> precedes 2 9 (steps_of new)"
    by (metis snd_conv)
  have st: "steps_of (calls (snd (handleProxy demoHandlers demoEnv demoRequest demoUrl
                        (demoContext [acctKey, acctGood] (Some [9, 9])) demoStart))) = [1, 2, 3, 4, 5, 6, 9, 9]"
    by (simp add: demo_run_replaced steps_of_def)
  from a b st show ?thesis
    by (simp add: demoStart_def demoRequest_def demoContext_def)
qed

section \<open>The usage worker: effects of the operations\<close>

lemma update_worker_fields [simp]:
  "usageWorkerInstance (update_worker w f st) = usageWorkerInstance st"
  "shutdownTimerId (update_worker w f st) = shutdownTimerId st"
  "timers (update_worker w f st) = timers st"
  "next_timer (update_worker w f st) = next_timer st"
  "length (workers (update_worker w f st)) = length (workers st)"
  by (simp_all add: update_worker_def)

lemma update_worker_nth:
  "workers (update_worker w f st) ! v =
     (if v = w \<and> w < length (workers st) then f (workers st ! w) else workers st ! v)"
  by (simp add: update_worker_def)

lemma getUsageWorker_creates:
  assumes "usageWorkerInstance st = None"
  shows "\<exists>st'. getUsageWorker cfg None st = (Inr (length (workers st)), st') \<and>
           usageWorkerInstance st' = Some (length (workers st)) \<and>
           length (workers st') = Suc (length (workers st)) \<and>
           (\<forall>v<length (workers st). workers st' ! v = workers st ! v) \<and>
           running (workers st' ! length (workers st)) \<and>
           onerror_set (workers st' ! length (workers st)) \<and>
           onmessage_set (workers st' ! length (workers st)) \<and>
           timers st' = timers st \<and> shutdownTimerId st' = shutdownTimerId st \<and>
           next_timer st' = next_timer st"
proof -
  define src where "src = (if EMBEDDED_WORKER_CODE cfg \<noteq> [] then BlobUrl (decodeBase64 cfg (EMBEDDED_WORKER_CODE cfg)) else FileUrl (workerPath cfg))"
  define st2 where "st2 = st\<lparr>workers := workers st @
                [\<lparr>source = src, running = True, unrefd = False, onmessage_set = False,
                  onerror_set = False, inbox = []\<rparr>],
                usageWorkerInstance := Some (length (workers st)),
                wlog := wlog st @ [Info (if EMBEDDED_WORKER_CODE cfg \<noteq> [] then ''Post-processor worker starting from embedded code'' else ''Post-processor worker starting from: '' @ workerPath cfg), Info ''Post-processor worker started'']\<rparr>"
  define st5 where "st5 = update_worker (length (workers st)) (\<lambda>wk. wk\<lparr>onerror_set := True\<rparr>)
                  (update_worker (length (workers st)) (\<lambda>wk. wk\<lparr>onmessage_set := True\<rparr>)
                    (if has_unref cfg then update_worker (length (workers st)) (\<lambda>wk. wk\<lparr>unrefd := True\<rparr>) st2 else st2))"
  have run: "getUsageWorker cfg None st = (Inr (length (workers st)), st5)"
    using assms unfolding getUsageWorker_def new_Worker_def log_write_def st5_def st2_def src_def
    by simp
  have l2: "length (workers st2) = Suc (length (workers st))" by (simp add: st2_def)
  have f2: "usageWorkerInstance st2 = Some (length (workers st))" "timers st2 = timers st"
    "shutdownTimerId st2 = shutdownTimerId st" "next_timer st2 = next_timer st"
    by (simp_all add: st2_def)
  have n2: "workers st2 ! v = workers st ! v" if "v < length (workers st)" for v
    using that by (simp add: st2_def nth_append)
  have r2: "running (workers st2 ! length (workers st))" by (simp add: st2_def)
  have "usageWorkerInstance st5 = Some (length (workers st)) \<and>
           length (workers st5) = Suc (length (workers st)) \<and>
           (\<forall>v<length (workers st). workers st5 ! v = workers st ! v) \<and>
           running (workers st5 ! length (workers st)) \<and>
           onerror_set (workers st5 ! length (workers st)) \<and>
           onmessage_set (workers st5 ! length (workers st)) \<and>
           timers st5 = timers st \<and> shutdownTimerId st5 = shutdownTimerId st \<and>
           next_timer st5 = next_timer st"
    unfolding st5_def using l2 f2 n2 r2
    by (cases "has_unref cfg") (simp_all add: update_worker_nth)
  with run show ?thesis by blast
qed

lemma is_running_update:
  "is_running (update_worker w f st) v =
     (if v = w \<and> w < length (workers st) then running (f (workers st ! w)) else is_running st v)"
  by (simp add: is_running_def update_worker_nth)

lemma is_running_same_workers: "workers st' = workers st \<Longrightarrow> is_running st' v = is_running st v"
  by (simp add: is_running_def)

lemma wf_initial: "wf_wstate initial_wstate"
  by (simp add: wf_wstate_def initial_wstate_def is_running_def)

lemma getUsageWorker_reuse:
  "usageWorkerInstance st = Some w \<Longrightarrow> getUsageWorker cfg fault st = (Inr w, st)"
  by (simp add: getUsageWorker_def)

lemma getUsageWorker_fails:
  "usageWorkerInstance st = None \<Longrightarrow>
   \<exists>st'. getUsageWorker cfg (Some e) st = (Inl e, st') \<and> usageWorkerInstance st' = None \<and>
         workers st' = workers st \<and> timers st' = timers st \<and>
         shutdownTimerId st' = shutdownTimerId st \<and> next_timer st' = next_timer st"
  by (simp add: getUsageWorker_def new_Worker_def log_write_def)

lemma terminate_no_handle:
  "usageWorkerInstance st = None \<Longrightarrow> terminateUsageWorker cfg fault st = (Inr (), st)"
  by (simp add: terminateUsageWorker_def)

lemma terminate_send_fails:
  "usageWorkerInstance st = Some w \<Longrightarrow>
   terminateUsageWorker cfg (Some e) st =
     (Inr (), st\<lparr>usageWorkerInstance := None, shutdownTimerId := None,
                 timers := filter (\<lambda>p. Some (fst p) \<noteq> shutdownTimerId st) (timers st)\<rparr>)"
  by (cases "shutdownTimerId st")
     (simp_all add: terminateUsageWorker_def postMessage_def clearTimeout_def)

lemma terminate_send_ok:
  "usageWorkerInstance st = Some w \<Longrightarrow>
   terminateUsageWorker cfg None st =
     (Inr (), (update_worker w (\<lambda>wk. wk\<lparr>inbox := inbox wk @ [Shutdown]\<rparr>) st)
                \<lparr>shutdownTimerId := Some (next_timer st),
                 timers := filter (\<lambda>p. Some (fst p) \<noteq> shutdownTimerId st) (timers st) @
                           [(next_timer st, WORKER_SHUTDOWN_DELAY cfg)],
                 next_timer := Suc (next_timer st)\<rparr>)"
  by (cases "shutdownTimerId st"; cases "w < length (workers st)")
     (simp_all add: terminateUsageWorker_def postMessage_def clearTimeout_def setTimeout_def
        update_worker_def)

lemma timer_callback_effect:
  "shutdownTimerCallback fault st =
     (Inr (), (case usageWorkerInstance st of
                 None \<Rightarrow> st
               | Some w \<Rightarrow> (if fault = None then stop_worker w st else st))
              \<lparr>usageWorkerInstance := None, shutdownTimerId := None\<rparr>)"
  by (cases "usageWorkerInstance st"; cases fault)
     (simp_all add: shutdownTimerCallback_def worker_terminate_def stop_worker_def)

section \<open>The usage worker: reachable states\<close>

lemma wf_timers_cleared:
  assumes "wf_wstate st"
  shows "filter (\<lambda>p. Some (fst p) \<noteq> shutdownTimerId st) (timers st) = []"
  using assms by (auto simp: wf_wstate_def filter_empty_conv)

lemma wf_only_handle_runs:
  assumes "wf_wstate st" and "usageWorkerInstance st = Some w" and "is_running st v"
  shows "v = w"
  using assms by (auto simp: wf_wstate_def)

lemma wf_nothing_runs:
  assumes "wf_wstate st" and "usageWorkerInstance st = None"
  shows "\<not> is_running st v"
  using assms by (auto simp: wf_wstate_def)

lemma wf_getUsageWorker:
  assumes "wf_wstate st"
  shows "wf_wstate (snd (getUsageWorker cfg fault st))"
proof (cases "usageWorkerInstance st")
  case (Some w)
  then show ?thesis using assms by (simp add: getUsageWorker_reuse)
next
  case None
  have nr: "\<not> is_running st v" for v using wf_nothing_runs[OF assms None] .
  show ?thesis
  proof (cases fault)
    case (Some e)
    from getUsageWorker_fails[OF None, of cfg e] obtain st' where
      st': "getUsageWorker cfg (Some e) st = (Inl e, st')" "usageWorkerInstance st' = None"
      "workers st' = workers st" "timers st' = timers st"
      "shutdownTimerId st' = shutdownTimerId st" "next_timer st' = next_timer st"
      by blast
    have "is_running st' v = is_running st v" for v
      using st'(3) by (rule is_running_same_workers)
    then show ?thesis using assms nr Some st' by (simp add: wf_wstate_def)
  next
    case fn: None
    from getUsageWorker_creates[OF None, of cfg] obtain st' where
      st': "getUsageWorker cfg None st = (Inr (length (workers st)), st')"
      "usageWorkerInstance st' = Some (length (workers st))"
      "length (workers st') = Suc (length (workers st))"
      "\<forall>v<length (workers st). workers st' ! v = workers st ! v"
      "timers st' = timers st" "shutdownTimerId st' = shutdownTimerId st"
      "next_timer st' = next_timer st"
      by blast
    have "is_running st' v \<longrightarrow> v = length (workers st)" for v
      using nr[of v] st'(3,4) by (auto simp: is_running_def less_Suc_eq)
    then show ?thesis using assms st' fn by (simp add: wf_wstate_def)
  qed
qed

lemma wf_terminateUsageWorker:
  assumes "wf_wstate st" and "may_fault fault st"
  shows "wf_wstate (snd (terminateUsageWorker cfg fault st))"
proof (cases "usageWorkerInstance st")
  case None
  then show ?thesis using assms by (simp add: terminate_no_handle)
next
  case (Some w)
  note cleared = wf_timers_cleared[OF assms(1)]
  have wl: "w < length (workers st)" using assms(1) Some by (simp add: wf_wstate_def)
  show ?thesis
  proof (cases fault)
    case fn: None
    have "is_running (update_worker w (\<lambda>wk. wk\<lparr>inbox := inbox wk @ [Shutdown]\<rparr>) st) v = is_running st v" for v
      by (simp add: is_running_def update_worker_nth)
    then show ?thesis
      using assms(1) Some fn cleared wl
      by (simp add: terminate_send_ok[OF Some] wf_wstate_def is_running_def)
  next
    case (Some e)
    with assms(2) \<open>usageWorkerInstance st = Some w\<close> have nr: "\<not> is_running st w"
      by (simp add: may_fault_def)
    have "\<not> is_running st v" for v
      using wf_only_handle_runs[OF assms(1) \<open>usageWorkerInstance st = Some w\<close>, of v] nr by blast
    then show ?thesis
      using Some cleared
      by (simp add: terminate_send_fails[OF \<open>usageWorkerInstance st = Some w\<close>] wf_wstate_def is_running_def)
  qed
qed

lemma wf_timer_fires:
  assumes "wf_wstate st" and "(t, d) \<in> set (timers st)" and "may_fault fault st"
  shows "wf_wstate (snd (shutdownTimerCallback fault (clearTimeout t st)))"
proof -
  from assms(1,2) have tid: "shutdownTimerId st = Some t" by (auto simp: wf_wstate_def)
  have cleared: "filter (\<lambda>p. fst p \<noteq> t) (timers st) = []"
    using wf_timers_cleared[OF assms(1)] tid by simp
  let ?st = "clearTimeout t st"
  have c: "timers ?st = []" "usageWorkerInstance ?st = usageWorkerInstance st"
    "workers ?st = workers st"
    by (simp_all add: clearTimeout_def cleared)
  have nr: "\<not> is_running
      ((case usageWorkerInstance ?st of None \<Rightarrow> ?st
        | Some w \<Rightarrow> (if fault = None then stop_worker w ?st else ?st))) v" for v
  proof (cases "usageWorkerInstance st")
    case None
    then show ?thesis using wf_nothing_runs[OF assms(1) None, of v] c
      by (simp add: is_running_def)
  next
    case (Some w)
    have only: "is_running st v \<Longrightarrow> v = w"
      using wf_only_handle_runs[OF assms(1) Some] by blast
    show ?thesis
    proof (cases fault)
      case None
      have "is_running (stop_worker w ?st) v =
            (if v = w \<and> w < length (workers ?st) then False else is_running ?st v)"
        by (simp add: stop_worker_def is_running_update)
      moreover have "is_running ?st v = is_running st v"
        by (rule is_running_same_workers) (simp add: c)
      moreover have "is_running st v \<Longrightarrow> v = w \<and> w < length (workers ?st)"
        using only c by (simp add: is_running_def)
      ultimately have "\<not> is_running (stop_worker w ?st) v" by metis
      then show ?thesis using Some c None by simp
    next
      case f: (Some e)
      with assms(3) Some have "\<not> is_running st w" by (simp add: may_fault_def)
      with only have "\<not> is_running st v" by blast
      then show ?thesis using Some c f by (simp add: is_running_def)
    qed
  qed
  have t0: "timers ((case usageWorkerInstance ?st of None \<Rightarrow> ?st
        | Some w \<Rightarrow> (if fault = None then stop_worker w ?st else ?st))) = []"
    using c by (simp add: stop_worker_def split: option.splits)
  show ?thesis
    unfolding timer_callback_effect snd_conv wf_wstate_def
    using nr t0 by (simp add: is_running_def)
qed

lemma wf_same_handles:
  assumes "wf_wstate st" and "timers st' = timers st" and "shutdownTimerId st' = shutdownTimerId st"
    and "next_timer st' = next_timer st" and "length (workers st') = length (workers st)"
    and "\<And>v. is_running st' v \<Longrightarrow> usageWorkerInstance st' = Some v"
    and "usageWorkerInstance st' = None \<or> usageWorkerInstance st' = usageWorkerInstance st"
  shows "wf_wstate st'"
  unfolding wf_wstate_def
proof (intro conjI allI impI ballI)
  fix v assume "is_running st' v"
  then show "usageWorkerInstance st' = Some v" by (rule assms(6))
next
  fix w assume "usageWorkerInstance st' = Some w"
  with assms(7) have "usageWorkerInstance st = Some w" by auto
  with assms(1) have "w < length (workers st)" unfolding wf_wstate_def by blast
  then show "w < length (workers st')" using assms(5) by simp
next
  fix p assume "p \<in> set (timers st')"
  then have "p \<in> set (timers st)" using assms(2) by simp
  with assms(1) have "shutdownTimerId st = Some (fst p) \<and> fst p < next_timer st"
    unfolding wf_wstate_def by blast
  then show "shutdownTimerId st' = Some (fst p)" and "fst p < next_timer st'"
    using assms(3,4) by simp_all
next
  from assms(1) have "length (timers st) \<le> 1" unfolding wf_wstate_def by blast
  then show "length (timers st') \<le> 1" using assms(2) by simp
qed

lemma onerror_fields:
  "usageWorkerInstance (onerror error now st) = None"
  "workers (onerror error now st) = workers st"
  "timers (onerror error now st) = timers st"
  "shutdownTimerId (onerror error now st) = shutdownTimerId st"
  "next_timer (onerror error now st) = next_timer st"
  by (simp_all add: onerror_def log_write_def)

lemma onmessage_fields:
  "usageWorkerInstance (onmessage data st) = usageWorkerInstance st"
  "workers (onmessage data st) = workers st"
  "timers (onmessage data st) = timers st"
  "shutdownTimerId (onmessage data st) = shutdownTimerId st"
  "next_timer (onmessage data st) = next_timer st"
  by (cases data; simp add: onmessage_def)+

lemma stop_worker_fields:
  "usageWorkerInstance (stop_worker w st) = usageWorkerInstance st"
  "timers (stop_worker w st) = timers st"
  "shutdownTimerId (stop_worker w st) = shutdownTimerId st"
  "next_timer (stop_worker w st) = next_timer st"
  "length (workers (stop_worker w st)) = length (workers st)"
  by (simp_all add: stop_worker_def)

lemma is_running_stop:
  "is_running (stop_worker w st) v = (v \<noteq> w \<and> is_running st v)"
  by (auto simp: stop_worker_def is_running_update) (simp add: is_running_def)

lemma wf_worker_error:
  assumes "wf_wstate st" and "is_running st w"
  shows "wf_wstate (onerror error now (stop_worker w st))"
proof (rule wf_same_handles[OF assms(1)])
  have h: "usageWorkerInstance st = Some w" using assms unfolding wf_wstate_def by blast
  fix v assume "is_running (onerror error now (stop_worker w st)) v"
  then have "is_running (stop_worker w st) v"
    using is_running_same_workers[OF onerror_fields(2)] by metis
  then have "v \<noteq> w" "is_running st v" by (simp_all add: is_running_stop)
  with wf_only_handle_runs[OF assms(1) h] have False by blast
  then show "usageWorkerInstance (onerror error now (stop_worker w st)) = Some v" ..
qed (simp_all add: onerror_fields stop_worker_fields)

lemma wf_worker_message:
  assumes "wf_wstate st"
  shows "wf_wstate (onmessage data st)"
proof (rule wf_same_handles[OF assms])
  fix v assume "is_running (onmessage data st) v"
  then have "is_running st v"
    using is_running_same_workers[OF onmessage_fields(2)] by metis
  with assms show "usageWorkerInstance (onmessage data st) = Some v"
    unfolding wf_wstate_def by (simp add: onmessage_fields)
qed (simp_all add: onmessage_fields)

lemma wf_worker_stops:
  assumes "wf_wstate st"
  shows "wf_wstate (stop_worker w st)"
proof (rule wf_same_handles[OF assms])
  fix v assume "is_running (stop_worker w st) v"
  then have "is_running st v" by (simp add: is_running_stop)
  with assms show "usageWorkerInstance (stop_worker w st) = Some v"
    unfolding wf_wstate_def by (simp add: stop_worker_fields)
qed (simp_all add: stop_worker_fields)

lemma reachable_wf: "reachable cfg st \<Longrightarrow> wf_wstate st"
proof (induction rule: reachable.induct)
  case start
  show ?case by (rule wf_initial)
next
  case (acquire st fault)
  then show ?case by (simp add: wf_getUsageWorker)
next
  case (terminate st fault)
  then show ?case by (simp add: wf_terminateUsageWorker)
next
  case (timer_fires st t d fault)
  then show ?case by (simp add: wf_timer_fires)
next
  case (worker_error st w error now)
  then show ?case by (simp add: wf_worker_error)
next
  case (worker_message st w data)
  then show ?case by (simp add: wf_worker_message)
next
  case (worker_stops st w)
  then show ?case by (simp add: wf_worker_stops)
qed

section \<open>The usage worker: observers and histories\<close>

lemma observed_same_workers: "workers st' = workers st \<Longrightarrow> observed st' = observed st"
  by (simp add: observed_def)

lemma observed_update:
  assumes "observed st"
    and "\<And>wk. onerror_set (f wk) = onerror_set wk" and "\<And>wk. onmessage_set (f wk) = onmessage_set wk"
  shows "observed (update_worker w f st)"
proof (cases "w < length (workers st)")
  case False
  then show ?thesis using assms(1) by (simp add: update_worker_def)
next
  case True
  have "set ((workers st)[w := f (workers st ! w)]) \<subseteq> insert (f (workers st ! w)) (set (workers st))"
    by (rule set_update_subset_insert)
  moreover have "onerror_set (f (workers st ! w)) \<and> onmessage_set (f (workers st ! w))"
    using assms True by (simp add: observed_def list_all_length)
  ultimately show ?thesis
    using assms(1) True by (auto simp: observed_def update_worker_def list_all_iff)
qed

lemma observed_nth:
  "observed st \<Longrightarrow> w < length (workers st) \<Longrightarrow>
   onerror_set (workers st ! w) \<and> onmessage_set (workers st ! w)"
  by (simp add: observed_def list_all_length)

lemma observed_stop: "observed st \<Longrightarrow> observed (stop_worker w st)"
  unfolding stop_worker_def by (rule observed_update) simp_all

lemma observed_getUsageWorker:
  assumes "observed st"
  shows "observed (snd (getUsageWorker cfg fault st))"
proof (cases "usageWorkerInstance st")
  case (Some w)
  then show ?thesis using assms by (simp add: getUsageWorker_reuse)
next
  case None
  show ?thesis
  proof (cases fault)
    case (Some e)
    from getUsageWorker_fails[OF None, of cfg e] obtain st' where
      st': "getUsageWorker cfg (Some e) st = (Inl e, st')" "workers st' = workers st"
      by blast
    have "observed st'" using observed_same_workers[OF st'(2)] assms by simp
    then show ?thesis using Some st'(1) by simp
  next
    case fn: None
    from getUsageWorker_creates[OF \<open>usageWorkerInstance st = None\<close>, of cfg] obtain st' where
      st': "getUsageWorker cfg None st = (Inr (length (workers st)), st')"
      "length (workers st') = Suc (length (workers st))"
      "\<forall>v<length (workers st). workers st' ! v = workers st ! v"
      "onerror_set (workers st' ! length (workers st))"
      "onmessage_set (workers st' ! length (workers st))"
      by blast
    have "onerror_set (workers st' ! v) \<and> onmessage_set (workers st' ! v)"
      if "v < length (workers st')" for v
    proof (cases "v = length (workers st)")
      case True
      then show ?thesis using st'(4,5) by simp
    next
      case False
      with that st'(2) have "v < length (workers st)" by simp
      then show ?thesis using st'(3) observed_nth[OF assms] by simp
    qed
    then have "observed st'" by (simp add: observed_def list_all_length)
    then show ?thesis using st'(1) fn by simp
  qed
qed

lemma observed_terminateUsageWorker:
  assumes "observed st"
  shows "observed (snd (terminateUsageWorker cfg fault st))"
proof (cases "usageWorkerInstance st")
  case None
  then show ?thesis using assms by (simp add: terminate_no_handle)
next
  case (Some w)
  show ?thesis
  proof (cases fault)
    case None
    have "observed (update_worker w (\<lambda>wk. wk\<lparr>inbox := inbox wk @ [Shutdown]\<rparr>) st)"
      by (rule observed_update[OF assms]) simp_all
    then show ?thesis
      using None by (simp add: terminate_send_ok[OF Some] observed_def)
  next
    case f: (Some e)
    show ?thesis
      using assms f by (simp add: terminate_send_fails[OF Some] observed_def)
  qed
qed

lemma observed_timer:
  assumes "observed st"
  shows "observed (snd (shutdownTimerCallback fault (clearTimeout t st)))"
proof -
  have c: "observed (clearTimeout t st)"
    using assms by (simp add: observed_def clearTimeout_def)
  have "observed (case usageWorkerInstance (clearTimeout t st) of None \<Rightarrow> clearTimeout t st
        | Some w \<Rightarrow> (if fault = None then stop_worker w (clearTimeout t st) else clearTimeout t st))"
    using c observed_stop by (simp split: option.splits)
  then show ?thesis
    by (simp add: timer_callback_effect observed_def)
qed

lemma reachable_observed: "reachable cfg st \<Longrightarrow> observed st"
proof (induction rule: reachable.induct)
  case start
  show ?case by (simp add: observed_def initial_wstate_def)
next
  case (acquire st fault)
  then show ?case by (simp add: observed_getUsageWorker)
next
  case (terminate st fault)
  then show ?case by (simp add: observed_terminateUsageWorker)
next
  case (timer_fires st t d fault)
  then show ?case by (simp add: observed_timer)
next
  case (worker_error st w error now)
  then have "observed (stop_worker w st)" by (simp add: observed_stop)
  then show ?case
    using observed_same_workers[OF onerror_fields(2)] by simp
next
  case (worker_message st w data)
  then show ?case using observed_same_workers[OF onmessage_fields(2)] by simp
next
  case (worker_stops st w)
  then show ?case by (simp add: observed_stop)
qed

lemma reachable_step:
  assumes "reachable cfg st" and "runtime_ok e st"
  shows "reachable cfg (apply_event cfg e st)"
proof (cases e)
  case (Acquire fault)
  then show ?thesis using assms(1) by (simp add: reachable.acquire)
next
  case (Terminate fault)
  then show ?thesis using assms by (simp add: reachable.terminate)
next
  case (TimerFires t fault)
  with assms(2) obtain d where "(t, d) \<in> set (timers st)" "may_fault fault st" by auto
  then show ?thesis using assms(1) TimerFires by (simp add: reachable.timer_fires)
next
  case (WorkerError w error now ends)
  with assms(2) have r: "is_running st w" and e: ends by simp_all
  then have wl: "w < length (workers st)" by (simp add: is_running_def)
  show ?thesis
  proof (cases "onerror_set (workers st ! w)")
    case True
    then show ?thesis
      using WorkerError e wl reachable.worker_error[OF assms(1) r True]
      by (simp add: report_error_def)
  next
    case False
    then show ?thesis
      using WorkerError e reachable.worker_stops[OF assms(1)]
      by (simp add: report_error_def)
  qed
next
  case (WorkerMessage w data)
  with assms(2) have r: "is_running st w" by simp
  show ?thesis
  proof (cases "onmessage_set (workers st ! w)")
    case True
    then show ?thesis
      using WorkerMessage r reachable.worker_message[OF assms(1) r True]
      by (simp add: report_message_def is_running_def)
  next
    case False
    then show ?thesis using WorkerMessage assms(1) by (simp add: report_message_def)
  qed
next
  case (WorkerStops w)
  then show ?thesis using assms(1) by (simp add: reachable.worker_stops)
qed

lemma respected_reachable:
  "reachable cfg st \<Longrightarrow> runtime_respected cfg evs st \<Longrightarrow> reachable cfg (run_events cfg evs st)"
  by (induction evs arbitrary: st) (simp_all add: reachable_step)

lemma report_error_registered:
  "w < length (workers st) \<Longrightarrow> onerror_set (workers st ! w) \<Longrightarrow>
   report_error w error now True st = onerror error now (stop_worker w st)"
  by (simp add: report_error_def)

section \<open>The usage worker: recovery and shutdown\<close>

lemma at_most_one_filter:
  assumes "\<And>i j. i < length xs \<Longrightarrow> j < length xs \<Longrightarrow> P (xs ! i) \<Longrightarrow> P (xs ! j) \<Longrightarrow> i = j"
  shows "length (filter P xs) \<le> 1"
proof -
  have "finite {i. i < length xs \<and> P (xs ! i)}" by simp
  then have "card {i. i < length xs \<and> P (xs ! i)} \<le> Suc 0"
    using assms by (subst card_le_Suc0_iff_eq) auto
  then show ?thesis by (simp add: length_filter_conv_card)
qed

lemma demo_first_acquire: "getUsageWorker demoWorkerConfig None initial_wstate = (Inr 0, demoRunning)"
  by (simp add: getUsageWorker_def new_Worker_def log_write_def update_worker_def
        demoWorkerConfig_def initial_wstate_def demoRunning_def demoWorker_def)

lemma demo_reachable: "reachable demoWorkerConfig demoRunning"
  using reachable.acquire[OF reachable.start, of demoWorkerConfig None]
  by (simp add: demo_first_acquire)

text \<open>
  Claim C7. The error observer always leaves \<^verbatim>\<open>usageWorkerInstance\<close> absent. A
  \<^verbatim>\<open>getUsageWorker\<close> that finds no handle and whose \<^verbatim>\<open>new Worker\<close> succeeds holds a new
  running worker on which it has registered both observers, so that an error this worker
  reports clears the handle. When a running worker \<open>w\<close> with the observer registered has
  reported an error that ended it, the next such \<^verbatim>\<open>getUsageWorker\<close> constructs a worker
  under a new handle, different from \<open>w\<close>, which runs while \<open>w\<close> does not and has the
  observer registered in turn, and every later call returns that same worker. After every
  history along which the runtime kept to the assumptions of \<open>runtime_ok\<close>, a running worker
  is the one the module holds and has the error observer registered, so at most one
  worker runs.
\<close>

theorem worker_error_recovery:
  "(\<forall>error now st. usageWorkerInstance (onerror error now st) = None) \<and>
   (\<forall>st error now ends. usageWorkerInstance st = None \<longrightarrow>
      (\<exists>w st1. getUsageWorker cfg None st = (Inr w, st1) \<and>
         usageWorkerInstance st1 = Some w \<and> is_running st1 w \<and>
         onerror_set (workers st1 ! w) \<and> onmessage_set (workers st1 ! w) \<and>
         usageWorkerInstance (report_error w error now ends st1) = None)) \<and>
   (\<forall>st w error now. is_running st w \<longrightarrow> onerror_set (workers st ! w) \<longrightarrow>
      (\<exists>st'. getUsageWorker cfg None (report_error w error now True st) =
               (Inr (length (workers st)), st') \<and>
             length (workers st) \<noteq> w \<and>
             usageWorkerInstance st' = Some (length (workers st)) \<and>
             is_running st' (length (workers st)) \<and> \<not> is_running st' w \<and>
             onerror_set (workers st' ! length (workers st)) \<and>
             (\<forall>fault. getUsageWorker cfg fault st' = (Inr (length (workers st)), st')))) \<and>
   (\<forall>evs. runtime_respected cfg evs initial_wstate \<longrightarrow>
      (let st = run_events cfg evs initial_wstate
       in (\<forall>v. is_running st v \<longrightarrow>
             usageWorkerInstance st = Some v \<and> onerror_set (workers st ! v)) \<and>
          length (filter running (workers st)) \<le> 1))"
proof (intro conjI allI impI)
  fix error now st
  show "usageWorkerInstance (onerror error now st) = None" by (rule onerror_fields(1))
next
  fix st :: wstate and error :: error_event and now :: string and ends :: bool
  assume none: "usageWorkerInstance st = None"
  from getUsageWorker_creates[OF none, of cfg] obtain st1 where
    st1: "getUsageWorker cfg None st = (Inr (length (workers st)), st1)"
      "usageWorkerInstance st1 = Some (length (workers st))"
      "length (workers st1) = Suc (length (workers st))"
      "running (workers st1 ! length (workers st))"
      "onerror_set (workers st1 ! length (workers st))"
      "onmessage_set (workers st1 ! length (workers st))"
    by blast
  have run: "is_running st1 (length (workers st))"
    using st1(3,4) by (simp add: is_running_def)
  have "report_error (length (workers st)) error now ends st1 =
        onerror error now (if ends then stop_worker (length (workers st)) st1 else st1)"
    using st1(3,5) by (simp add: report_error_def)
  then have "usageWorkerInstance (report_error (length (workers st)) error now ends st1) = None"
    by (simp add: onerror_fields(1))
  with st1 run show "\<exists>w st1. getUsageWorker cfg None st = (Inr w, st1) \<and>
         usageWorkerInstance st1 = Some w \<and> is_running st1 w \<and>
         onerror_set (workers st1 ! w) \<and> onmessage_set (workers st1 ! w) \<and>
         usageWorkerInstance (report_error w error now ends st1) = None"
    by blast
next
  fix st w error now
  assume run: "is_running st w" and reg: "onerror_set (workers st ! w)"
  have wl: "w < length (workers st)" using run by (simp add: is_running_def)
  let ?e = "onerror error now (stop_worker w st)"
  have rep: "report_error w error now True st = ?e"
    by (rule report_error_registered[OF wl reg])
  have none: "usageWorkerInstance ?e = None" by (rule onerror_fields(1))
  have len: "length (workers ?e) = length (workers st)"
    by (simp add: onerror_fields stop_worker_fields)
  from getUsageWorker_creates[OF none, of cfg] obtain st' where
    st': "getUsageWorker cfg None ?e = (Inr (length (workers st)), st')"
      "usageWorkerInstance st' = Some (length (workers st))"
      "length (workers st') = Suc (length (workers st))"
      "\<forall>v<length (workers st). workers st' ! v = workers ?e ! v"
      "running (workers st' ! length (workers st))"
      "onerror_set (workers st' ! length (workers st))"
    unfolding len by blast
  have "\<not> is_running (stop_worker w st) w" by (simp add: is_running_stop)
  then have "\<not> is_running ?e w"
    using is_running_same_workers[OF onerror_fields(2)] by metis
  then have dead: "\<not> is_running st' w"
    using st'(3,4) wl len by (simp add: is_running_def)
  have fresh: "is_running st' (length (workers st))"
    using st'(3,5) by (simp add: is_running_def)
  have again: "\<forall>fault. getUsageWorker cfg fault st' = (Inr (length (workers st)), st')"
    using getUsageWorker_reuse[OF st'(2)] by simp
  show "\<exists>st'. getUsageWorker cfg None (report_error w error now True st) =
               (Inr (length (workers st)), st') \<and>
             length (workers st) \<noteq> w \<and>
             usageWorkerInstance st' = Some (length (workers st)) \<and>
             is_running st' (length (workers st)) \<and> \<not> is_running st' w \<and>
             onerror_set (workers st' ! length (workers st)) \<and>
             (\<forall>fault. getUsageWorker cfg fault st' = (Inr (length (workers st)), st'))"
    unfolding rep using st'(1,2,6) wl dead fresh again by auto
next
  fix evs
  assume ok: "runtime_respected cfg evs initial_wstate"
  let ?st = "run_events cfg evs initial_wstate"
  have r: "reachable cfg ?st" by (rule respected_reachable[OF reachable.start ok])
  then have wf: "wf_wstate ?st" by (rule reachable_wf)
  from r have obs: "observed ?st" by (rule reachable_observed)
  have one: "usageWorkerInstance ?st = Some v \<and> onerror_set (workers ?st ! v)"
    if "is_running ?st v" for v
  proof
    from wf that show "usageWorkerInstance ?st = Some v" unfolding wf_wstate_def by blast
    from that have "v < length (workers ?st)" by (simp add: is_running_def)
    then show "onerror_set (workers ?st ! v)" using observed_nth[OF obs] by blast
  qed
  have most: "length (filter running (workers ?st)) \<le> 1"
  proof (rule at_most_one_filter)
    fix i j
    assume "i < length (workers ?st)" "j < length (workers ?st)"
      "running (workers ?st ! i)" "running (workers ?st ! j)"
    then have "is_running ?st i" "is_running ?st j" by (simp_all add: is_running_def)
    with one have "usageWorkerInstance ?st = Some i" "usageWorkerInstance ?st = Some j"
      by blast+
    then show "i = j" by simp
  qed
  show "let st = run_events cfg evs initial_wstate
       in (\<forall>v. is_running st v \<longrightarrow>
             usageWorkerInstance st = Some v \<and> onerror_set (workers st ! v)) \<and>
          length (filter running (workers st)) \<le> 1"
    unfolding Let_def using one most by blast
qed

text \<open>
  The example for C7: the first acquisition registers the observer; the first worker
  reports a fault that ends it; the next acquisition makes worker 1.
\<close>

theorem worker_error_recovery_witness:
  "usageWorkerInstance (onerror demoErrorEvent ''2026-01-01T00:00:00.000Z'' demoRunning) = None \<and>
   (\<exists>w st1. getUsageWorker demoWorkerConfig None initial_wstate = (Inr w, st1) \<and>
      onerror_set (workers st1 ! w) \<and>
      usageWorkerInstance (report_error w demoErrorEvent ''2026-01-01T00:00:00.000Z'' True st1) = None) \<and>
   (\<exists>st'. getUsageWorker demoWorkerConfig None
             (report_error 0 demoErrorEvent ''2026-01-01T00:00:00.000Z'' True demoRunning) = (Inr 1, st') \<and>
          usageWorkerInstance st' = Some 1 \<and> is_running st' 1 \<and> \<not> is_running st' 0 \<and>
          getUsageWorker demoWorkerConfig None st' = (Inr 1, st')) \<and>
   length (filter running (workers (run_events demoWorkerConfig
      [Acquire None, WorkerError 0 demoErrorEvent ''2026-01-01T00:00:00.000Z'' True, Acquire None]
      initial_wstate))) \<le> 1"
proof -
  let ?ts = "''2026-01-01T00:00:00.000Z''"
  let ?evs = "[Acquire None, WorkerError 0 demoErrorEvent ?ts True, Acquire None]"
  note main = worker_error_recovery[of demoWorkerConfig]
  have run: "is_running demoRunning 0"
    by (simp add: is_running_def demoRunning_def demoWorker_def)
  have reg: "onerror_set (workers demoRunning ! 0)"
    by (simp add: demoRunning_def demoWorker_def)
  have len: "length (workers demoRunning) = 1" by (simp add: demoRunning_def)
  have none: "usageWorkerInstance initial_wstate = None" by (simp add: initial_wstate_def)
  have ok: "runtime_respected demoWorkerConfig ?evs initial_wstate"
    by (simp add: demo_first_acquire run)
  from main have a: "usageWorkerInstance (onerror demoErrorEvent ?ts demoRunning) = None"
    by blast
  from main none have b: "\<exists>w st1. getUsageWorker demoWorkerConfig None initial_wstate = (Inr w, st1) \<and>
         usageWorkerInstance st1 = Some w \<and> is_running st1 w \<and>
         onerror_set (workers st1 ! w) \<and> onmessage_set (workers st1 ! w) \<and>
         usageWorkerInstance (report_error w demoErrorEvent ?ts True st1) = None"
    by blast
  from main run reg have "\<exists>st'. getUsageWorker demoWorkerConfig None
        (report_error 0 demoErrorEvent ?ts True demoRunning) =
               (Inr (length (workers demoRunning)), st') \<and>
             length (workers demoRunning) \<noteq> 0 \<and>
             usageWorkerInstance st' = Some (length (workers demoRunning)) \<and>
             is_running st' (length (workers demoRunning)) \<and> \<not> is_running st' 0 \<and>
             onerror_set (workers st' ! length (workers demoRunning)) \<and>
             (\<forall>fault. getUsageWorker demoWorkerConfig fault st' = (Inr (length (workers demoRunning)), st'))"
    by blast
  then have c: "\<exists>st'. getUsageWorker demoWorkerConfig None
             (report_error 0 demoErrorEvent ?ts True demoRunning) = (Inr 1, st') \<and>
          usageWorkerInstance st' = Some 1 \<and> is_running st' 1 \<and> \<not> is_running st' 0 \<and>
          getUsageWorker demoWorkerConfig None st' = (Inr 1, st')"
    unfolding len by blast
  from main ok have d: "length (filter running (workers (run_events demoWorkerConfig ?evs initial_wstate))) \<le> 1"
    unfolding Let_def by blast
  from a b c d show ?thesis by blast
qed

text \<open>
  Claim C8. Without a handle \<^verbatim>\<open>terminateUsageWorker\<close> changes nothing. From a reachable
  state, with the send behaving the same both times (nothing happens between two calls in
  immediate succession), the second call leaves the handle as the first left it, a timer
  pending exactly if one was pending after the first, and with the same delay; when the
  first call scheduled a timer the second has cancelled it before scheduling its own. In
  every reachable state at most one timer is pending.
\<close>

theorem terminate_idempotent:
  "(usageWorkerInstance st = None \<longrightarrow> terminateUsageWorker cfg fault st = (Inr (), st)) \<and>
   (reachable cfg st \<longrightarrow>
      (let s1 = snd (terminateUsageWorker cfg fault st);
           s2 = snd (terminateUsageWorker cfg fault s1)
       in usageWorkerInstance s2 = usageWorkerInstance s1 \<and>
          (shutdownTimerId s2 = None \<longleftrightarrow> shutdownTimerId s1 = None) \<and>
          map snd (timers s2) = map snd (timers s1) \<and>
          length (timers s2) \<le> 1 \<and>
          (\<forall>p\<in>set (timers s2). shutdownTimerId s2 = Some (fst p)) \<and>
          (usageWorkerInstance s1 \<noteq> None \<longrightarrow>
             (\<forall>t. shutdownTimerId s1 = Some t \<longrightarrow> t \<notin> fst ` set (timers s2))))) \<and>
   (reachable cfg st \<longrightarrow> length (timers st) \<le> 1)"
proof (intro conjI impI)
  assume "usageWorkerInstance st = None"
  then show "terminateUsageWorker cfg fault st = (Inr (), st)" by (rule terminate_no_handle)
next
  assume "reachable cfg st"
  then show "length (timers st) \<le> 1" using reachable_wf unfolding wf_wstate_def by blast
next
  assume "reachable cfg st"
  then have wf: "wf_wstate st" by (rule reachable_wf)
  note cleared = wf_timers_cleared[OF wf]
  show "let s1 = snd (terminateUsageWorker cfg fault st);
           s2 = snd (terminateUsageWorker cfg fault s1)
       in usageWorkerInstance s2 = usageWorkerInstance s1 \<and>
          (shutdownTimerId s2 = None \<longleftrightarrow> shutdownTimerId s1 = None) \<and>
          map snd (timers s2) = map snd (timers s1) \<and>
          length (timers s2) \<le> 1 \<and>
          (\<forall>p\<in>set (timers s2). shutdownTimerId s2 = Some (fst p)) \<and>
          (usageWorkerInstance s1 \<noteq> None \<longrightarrow>
             (\<forall>t. shutdownTimerId s1 = Some t \<longrightarrow> t \<notin> fst ` set (timers s2)))"
  proof (cases "usageWorkerInstance st")
    case None
    then show ?thesis
      using wf unfolding wf_wstate_def by (simp add: terminate_no_handle Let_def)
  next
    case (Some w)
    show ?thesis
    proof (cases fault)
      case f: (Some e)
      let ?s1 = "st\<lparr>usageWorkerInstance := None, shutdownTimerId := None, timers := []\<rparr>"
      have 1: "terminateUsageWorker cfg fault st = (Inr (), ?s1)"
        using terminate_send_fails[OF Some, of cfg e] f cleared by simp
      have 2: "terminateUsageWorker cfg fault ?s1 = (Inr (), ?s1)"
        by (rule terminate_no_handle) simp
      show ?thesis unfolding Let_def 1 snd_conv 2 by simp
    next
      case f: None
      let ?u = "update_worker w (\<lambda>wk. wk\<lparr>inbox := inbox wk @ [Shutdown]\<rparr>) st"
      let ?s1 = "?u\<lparr>shutdownTimerId := Some (next_timer st),
                 timers := [(next_timer st, WORKER_SHUTDOWN_DELAY cfg)],
                 next_timer := Suc (next_timer st)\<rparr>"
      have 1: "terminateUsageWorker cfg None st = (Inr (), ?s1)"
        using terminate_send_ok[OF Some, of cfg] cleared by simp
      have h1: "usageWorkerInstance ?s1 = Some w" using Some by simp
      obtain s2 where 2: "terminateUsageWorker cfg None ?s1 = (Inr (), s2)"
        and s2: "s2 = (update_worker w (\<lambda>wk. wk\<lparr>inbox := inbox wk @ [Shutdown]\<rparr>) ?s1)
                \<lparr>shutdownTimerId := Some (next_timer ?s1),
                 timers := filter (\<lambda>p. Some (fst p) \<noteq> shutdownTimerId ?s1) (timers ?s1) @
                           [(next_timer ?s1, WORKER_SHUTDOWN_DELAY cfg)],
                 next_timer := Suc (next_timer ?s1)\<rparr>"
        using terminate_send_ok[OF h1, of cfg] by blast
      have t2: "timers s2 = [(Suc (next_timer st), WORKER_SHUTDOWN_DELAY cfg)]"
        "shutdownTimerId s2 = Some (Suc (next_timer st))" "usageWorkerInstance s2 = Some w"
        unfolding s2 using Some by simp_all
      have t1: "timers ?s1 = [(next_timer st, WORKER_SHUTDOWN_DELAY cfg)]"
        "shutdownTimerId ?s1 = Some (next_timer st)"
        by simp_all
      show ?thesis
        unfolding f Let_def unfolding 1 snd_conv unfolding 2 snd_conv using t1 t2 h1 by simp
    qed
  qed
qed

text \<open>
  Claim C9. \<^verbatim>\<open>terminateUsageWorker\<close> and the callback of its timer return normally whatever
  \<^verbatim>\<open>postMessage\<close> and \<^verbatim>\<open>terminate\<close> throw. When there is a handle and the send throws,
  the handle is cleared, \<^verbatim>\<open>shutdownTimerId\<close> is absent, and no timer has been scheduled:
  the pending timers are the earlier ones without the cancelled one (none, in a reachable
  state), and no timer handle has been issued.
\<close>

theorem terminate_never_throws:
  "fst (terminateUsageWorker cfg fault st) = Inr () \<and>
   fst (shutdownTimerCallback fault st) = Inr () \<and>
   (\<forall>w e. usageWorkerInstance st = Some w \<longrightarrow> fault = Some e \<longrightarrow>
      (let s1 = snd (terminateUsageWorker cfg fault st)
       in usageWorkerInstance s1 = None \<and> shutdownTimerId s1 = None \<and>
          timers s1 = filter (\<lambda>p. Some (fst p) \<noteq> shutdownTimerId st) (timers st) \<and>
          next_timer s1 = next_timer st \<and>
          (reachable cfg st \<longrightarrow> timers s1 = [])))"
proof (intro conjI allI impI)
  show "fst (terminateUsageWorker cfg fault st) = Inr ()"
  proof (cases "usageWorkerInstance st")
    case None
    then show ?thesis by (simp add: terminate_no_handle)
  next
    case (Some w)
    then show ?thesis
      by (cases fault) (simp_all add: terminate_send_fails terminate_send_ok)
  qed
  show "fst (shutdownTimerCallback fault st) = Inr ()"
    by (simp add: timer_callback_effect)
next
  fix w e
  assume h: "usageWorkerInstance st = Some w" and f: "fault = Some e"
  have wfc: "reachable cfg st \<longrightarrow> filter (\<lambda>p. Some (fst p) \<noteq> shutdownTimerId st) (timers st) = []"
    using reachable_wf wf_timers_cleared by blast
  show "let s1 = snd (terminateUsageWorker cfg fault st)
       in usageWorkerInstance s1 = None \<and> shutdownTimerId s1 = None \<and>
          timers s1 = filter (\<lambda>p. Some (fst p) \<noteq> shutdownTimerId st) (timers st) \<and>
          next_timer s1 = next_timer st \<and>
          (reachable cfg st \<longrightarrow> timers s1 = [])"
    using wfc by (simp add: f terminate_send_fails[OF h] Let_def)
qed

text \<open>
  The example for C8: no handle at the start; then two calls on a running worker.
\<close>

theorem terminate_idempotent_witness:
  "terminateUsageWorker demoWorkerConfig None initial_wstate = (Inr (), initial_wstate) \<and>
   (let s1 = snd (terminateUsageWorker demoWorkerConfig None demoRunning);
        s2 = snd (terminateUsageWorker demoWorkerConfig None s1)
    in usageWorkerInstance s1 = Some 0 \<and> usageWorkerInstance s2 = Some 0 \<and>
       timers s1 = [(0, 100)] \<and> map snd (timers s2) = [100] \<and> length (timers s2) \<le> 1 \<and>
       0 \<notin> fst ` set (timers s2))"
proof -
  have n: "usageWorkerInstance initial_wstate = None" by (simp add: initial_wstate_def)
  from terminate_idempotent[of initial_wstate demoWorkerConfig None] n
  have a: "terminateUsageWorker demoWorkerConfig None initial_wstate = (Inr (), initial_wstate)"
    by blast
  have h: "usageWorkerInstance demoRunning = Some 0" by (simp add: demoRunning_def)
  have s1: "snd (terminateUsageWorker demoWorkerConfig None demoRunning) =
      (update_worker 0 (\<lambda>wk. wk\<lparr>inbox := inbox wk @ [Shutdown]\<rparr>) demoRunning)
        \<lparr>shutdownTimerId := Some 0, timers := [(0, 100)], next_timer := Suc 0\<rparr>"
    by (simp add: terminate_send_ok[OF h]) (simp add: demoRunning_def demoWorkerConfig_def)
  from terminate_idempotent[of demoRunning demoWorkerConfig None] demo_reachable
  have b: "let s1 = snd (terminateUsageWorker demoWorkerConfig None demoRunning);
           s2 = snd (terminateUsageWorker demoWorkerConfig None s1)
       in usageWorkerInstance s2 = usageWorkerInstance s1 \<and>
          (shutdownTimerId s2 = None \<longleftrightarrow> shutdownTimerId s1 = None) \<and>
          map snd (timers s2) = map snd (timers s1) \<and>
          length (timers s2) \<le> 1 \<and>
          (\<forall>p\<in>set (timers s2). shutdownTimerId s2 = Some (fst p)) \<and>
          (usageWorkerInstance s1 \<noteq> None \<longrightarrow>
             (\<forall>t. shutdownTimerId s1 = Some t \<longrightarrow> t \<notin> fst ` set (timers s2)))"
    by blast
  from a b show ?thesis
    unfolding Let_def s1 by (simp add: h)
qed

text \<open>
  The example for C9: the worker has stopped by itself and \<^verbatim>\<open>postMessage\<close> throws.
\<close>

theorem terminate_never_throws_witness:
  "fst (terminateUsageWorker demoWorkerConfig (Some (OtherError ''worker has stopped''))
          (stop_worker 0 demoRunning)) = Inr () \<and>
   fst (shutdownTimerCallback (Some (OtherError ''worker has stopped'')) (stop_worker 0 demoRunning)) = Inr () \<and>
   (let s1 = snd (terminateUsageWorker demoWorkerConfig (Some (OtherError ''worker has stopped''))
                   (stop_worker 0 demoRunning))
    in usageWorkerInstance s1 = None \<and> shutdownTimerId s1 = None \<and> timers s1 = [] \<and>
       next_timer s1 = 0)"
proof -
  let ?st = "stop_worker 0 demoRunning"
  have h: "usageWorkerInstance ?st = Some 0" by (simp add: stop_worker_fields demoRunning_def)
  have r: "reachable demoWorkerConfig ?st" by (rule reachable.worker_stops[OF demo_reachable])
  have n: "next_timer ?st = 0" by (simp add: stop_worker_fields demoRunning_def)
  from terminate_never_throws[of demoWorkerConfig "Some (OtherError ''worker has stopped'')" ?st] h r n
  show ?thesis by (auto simp: Let_def)
qed

end
